theory Spec2Isabelle
  imports Complex_Main
begin

section \<open>The genetic algorithm engine of Tarea2/src/GeneticAlgorithm.py\<close>

text \<open>
  The class \<^verbatim>\<open>GeneticAlgorithm\<close> is embedded function by function. Genes are an
  arbitrary type \<open>'g\<close>, an individual is a \<open>'g list\<close>, fitness values are Python
  integers (\<open>int\<close>), the mutation rate and the draws of \<^verbatim>\<open>np.random.random()\<close> are
  rationals (every finite double is one, and \<open><\<close> on doubles is \<open><\<close> on their values).
  The functions of one offspring compute with the contents of the individuals; the
  reproduction step and the simulation keep the individuals as list objects, since the
  mutation loop assigns to the child in place. The caller's functions are taken to
  return normally and to leave their arguments unchanged.
\<close>

subsection \<open>Exceptions\<close>

datatype error =
    NotImplementedError string
  | ValueError
  | IndexError
  | TypeError

subsection \<open>The random source\<close>

text \<open>
  \<^verbatim>\<open>np.random\<close> is a global generator. It is modelled as a tape of raw naturals that
  every draw consumes from the front; an exhausted tape goes on with zeros, so a finite
  list stands for an infinite stream. \<^verbatim>\<open>randint(low, high)\<close> raises ValueError when
  \<open>high \<le> low\<close> and otherwise returns an integer of \<open>[low, high)\<close>;
  \<^verbatim>\<open>random()\<close> returns \<open>k / 2^53\<close> with \<open>0 \<le> k < 2^53\<close>, a value of \<open>[0, 1)\<close>.
  The caller's functions may draw from the same tape.
\<close>

type_synonym rng = "nat list"

fun next_raw :: "rng \<Rightarrow> nat \<times> rng" where
  "next_raw [] = (0, [])"
| "next_raw (x # xs) = (x, xs)"

definition scale :: "int \<Rightarrow> int \<Rightarrow> nat \<Rightarrow> int" where
  "scale low high x = low + int x mod (high - low)"

definition randint1 :: "int \<Rightarrow> int \<Rightarrow> rng \<Rightarrow> error + (int \<times> rng)" where
  "randint1 low high r =
     (if high \<le> low then Inl ValueError
      else (case next_raw r of (x, r') \<Rightarrow> Inr (scale low high x, r')))"

fun draw_ints :: "int \<Rightarrow> int \<Rightarrow> nat \<Rightarrow> rng \<Rightarrow> int list \<times> rng" where
  "draw_ints low high 0 r = ([], r)"
| "draw_ints low high (Suc n) r =
     (case next_raw r of (x, r1) \<Rightarrow>
        (case draw_ints low high n r1 of (xs, r2) \<Rightarrow> (scale low high x # xs, r2)))"

definition randint :: "int \<Rightarrow> int \<Rightarrow> nat \<Rightarrow> rng \<Rightarrow> error + (int list \<times> rng)" where
  "randint low high n r =
     (if high \<le> low then Inl ValueError else Inr (draw_ints low high n r))"

definition random :: "rng \<Rightarrow> rat \<times> rng" where
  "random r = (case next_raw r of (x, r') \<Rightarrow> (of_nat (x mod 2 ^ 53) / 2 ^ 53, r'))"

subsection \<open>Python list indexing\<close>

text \<open>An index below zero counts from the end; outside both ranges it is IndexError.\<close>

definition py_index :: "'a list \<Rightarrow> int \<Rightarrow> error + 'a" where
  "py_index xs i =
     (if 0 \<le> i \<and> i < int (length xs) then Inr (xs ! nat i)
      else if i < 0 \<and> - int (length xs) \<le> i then Inr (xs ! nat (int (length xs) + i))
      else Inl IndexError)"

subsection \<open>The constructor's arguments and the object\<close>

text \<open>
  What a caller's \<^verbatim>\<open>viable_crossover(parent_1, parent_2)\<close> returns: one of the two list
  objects it was given, or a list of its own making.
\<close>

datatype 'g child = Parent_1 | Parent_2 | New_list "'g list"

definition child_value :: "'g list \<Rightarrow> 'g list \<Rightarrow> 'g child \<Rightarrow> 'g list" where
  "child_value parent_1 parent_2 c =
     (case c of Parent_1 \<Rightarrow> parent_1 | Parent_2 \<Rightarrow> parent_2 | New_list xs \<Rightarrow> xs)"

record 'g arguments =
  pop_size :: int
  mutation_rate :: rat
  fitness_function :: "'g list \<Rightarrow> int"
  individual_factory :: "rng \<Rightarrow> 'g list \<times> rng"
  gene_factory :: "rng \<Rightarrow> 'g \<times> rng"
  mutate :: "'g \<Rightarrow> rng \<Rightarrow> 'g \<times> rng"
  termination_condition :: "int \<Rightarrow> bool"
  max_iter :: int
  individual_viability_check :: bool
  individual_viability_condition :: "('g list \<Rightarrow> bool) option"
  viable_mutation :: "('g list \<Rightarrow> nat \<Rightarrow> rng \<Rightarrow> 'g \<times> rng) option"
  viable_crossover :: "('g list \<Rightarrow> 'g list \<Rightarrow> rng \<Rightarrow> 'g child \<times> rng) option"
  viable_individual_factory :: "(rng \<Rightarrow> 'g list \<times> rng) option"

record 'g GeneticAlgorithm = "'g arguments" +
  population :: "'g list list"
  population_fitness :: "int list"

text \<open>\<^verbatim>\<open>[f() for _ in range(n)]\<close>: \<open>n\<close> calls of \<open>f\<close>, in order, on the running tape.\<close>

fun calls :: "(rng \<Rightarrow> 'a \<times> rng) \<Rightarrow> nat \<Rightarrow> rng \<Rightarrow> 'a list \<times> rng" where
  "calls f 0 r = ([], r)"
| "calls f (Suc n) r =
     (case f r of (x, r1) \<Rightarrow> (case calls f n r1 of (xs, r2) \<Rightarrow> (x # xs, r2)))"

definition new_object :: "'g arguments \<Rightarrow> 'g list list \<Rightarrow> 'g GeneticAlgorithm" where
  "new_object a pop =
     \<lparr> pop_size = pop_size a,
       mutation_rate = mutation_rate a,
       fitness_function = fitness_function a,
       individual_factory = individual_factory a,
       gene_factory = gene_factory a,
       mutate = mutate a,
       termination_condition = termination_condition a,
       max_iter = max_iter a,
       individual_viability_check = individual_viability_check a,
       individual_viability_condition = individual_viability_condition a,
       viable_mutation = viable_mutation a,
       viable_crossover = viable_crossover a,
       viable_individual_factory = viable_individual_factory a,
       population = pop,
       population_fitness = [] \<rparr>"

text \<open>
  \<^verbatim>\<open>__init__\<close>: the four checks in the source's order, then the population from the
  factory of the mode. \<^verbatim>\<open>range(pop_size)\<close> is empty for a \<open>pop_size\<close> below 1.
\<close>

definition init :: "'g arguments \<Rightarrow> rng \<Rightarrow> error + ('g GeneticAlgorithm \<times> rng)" where
  "init a r =
     (if individual_viability_check a \<and> individual_viability_condition a = None
        then Inl (NotImplementedError ''individual_viability_condition'')
      else if individual_viability_check a \<and> viable_mutation a = None
        then Inl (NotImplementedError ''viable_mutation'')
      else if individual_viability_check a \<and> viable_crossover a = None
        then Inl (NotImplementedError ''viable_crossover'')
      else if individual_viability_check a \<and> viable_individual_factory a = None
        then Inl (NotImplementedError ''viable_individual_factory'')
      else if individual_viability_check a then
        (case viable_individual_factory a of
           None \<Rightarrow> Inl TypeError
         | Some factory \<Rightarrow>
             (case calls factory (nat (pop_size a)) r of
                (pop, r') \<Rightarrow> Inr (new_object a pop, r')))
      else
        (case calls (individual_factory a) (nat (pop_size a)) r of
           (pop, r') \<Rightarrow> Inr (new_object a pop, r')))"

definition getPopulation :: "'g GeneticAlgorithm \<Rightarrow> 'g list list" where
  "getPopulation e = population e"

definition evaluate :: "'g GeneticAlgorithm \<Rightarrow> 'g GeneticAlgorithm" where
  "evaluate e = e\<lparr>population_fitness := map (fitness_function e) (population e)\<rparr>"

subsection \<open>Parent selection\<close>

text \<open>
  The roulette walk of \<^verbatim>\<open>__produce_offspring\<close>: the loop over
  \<^verbatim>\<open>enumerate(self.__population)\<close> with the running total \<open>tot\<close> and the two parent
  variables (\<open>None\<close> until bound). Both assignments are tried at every iteration.
\<close>

fun roulette_walk ::
  "'a list \<Rightarrow> nat \<Rightarrow> int list \<Rightarrow> int \<Rightarrow> int \<Rightarrow> int \<Rightarrow> 'a option \<Rightarrow> 'a option
    \<Rightarrow> error + ('a option \<times> 'a option)" where
  "roulette_walk [] index fit parent_1_fitness parent_2_fitness tot parent_1 parent_2 =
     Inr (parent_1, parent_2)"
| "roulette_walk (individual # rest) index fit parent_1_fitness parent_2_fitness tot
       parent_1 parent_2 =
     (case py_index fit (int index) of
        Inl err \<Rightarrow> Inl err
      | Inr f \<Rightarrow>
          (let tot' = tot + \<bar>f\<bar>;
               parent_1' = (if tot' \<ge> parent_1_fitness then Some individual else parent_1);
               parent_2' = (if tot' \<ge> parent_2_fitness then Some individual else parent_2)
           in if \<not> (parent_1' = None \<or> parent_2' = None) then Inr (parent_1', parent_2')
              else roulette_walk rest (Suc index) fit parent_1_fitness parent_2_fitness tot'
                     parent_1' parent_2'))"

definition roulette ::
  "'g GeneticAlgorithm \<Rightarrow> int \<Rightarrow> rng \<Rightarrow> error + (('g list option \<times> 'g list option) \<times> rng)" where
  "roulette e total_fitness r =
     (case randint 0 total_fitness 2 r of
        Inl err \<Rightarrow> Inl err
      | Inr (targets, r') \<Rightarrow>
          (case targets of
             [parent_1_fitness, parent_2_fitness] \<Rightarrow>
               (case roulette_walk (population e) 0 (population_fitness e)
                       parent_1_fitness parent_2_fitness 0 None None of
                  Inl err \<Rightarrow> Inl err
                | Inr parents \<Rightarrow> Inr (parents, r'))
           | _ \<Rightarrow> Inl ValueError))"

text \<open>
  The tournament scan: the loop over the 8 participants with \<open>max_1\<close> and \<open>max_2\<close>
  (\<open>None\<close> until bound). The first participant is taken without reading its fitness.
\<close>

fun tournament_scan ::
  "int list \<Rightarrow> int list \<Rightarrow> int option \<Rightarrow> int option \<Rightarrow> error + (int option \<times> int option)" where
  "tournament_scan fit [] max_1 max_2 = Inr (max_1, max_2)"
| "tournament_scan fit (participant # rest) None max_2 =
     tournament_scan fit rest (Some participant) max_2"
| "tournament_scan fit (participant # rest) (Some m1) max_2 =
     (case py_index fit participant of
        Inl err \<Rightarrow> Inl err
      | Inr fp \<Rightarrow>
          (case py_index fit m1 of
             Inl err \<Rightarrow> Inl err
           | Inr f1 \<Rightarrow>
               if fp > f1 then tournament_scan fit rest (Some participant) (Some m1)
               else
                 (case max_2 of
                    None \<Rightarrow> tournament_scan fit rest (Some m1) (Some participant)
                  | Some m2 \<Rightarrow>
                      (case py_index fit m2 of
                         Inl err \<Rightarrow> Inl err
                       | Inr f2 \<Rightarrow>
                           if fp > f2 then tournament_scan fit rest (Some m1) (Some participant)
                           else tournament_scan fit rest (Some m1) (Some m2)))))"

text \<open>Indexing a list with \<open>None\<close> raises TypeError.\<close>

definition index_opt :: "'a list \<Rightarrow> int option \<Rightarrow> error + 'a" where
  "index_opt xs i = (case i of None \<Rightarrow> Inl TypeError | Some j \<Rightarrow> py_index xs j)"

definition tournament ::
  "'g GeneticAlgorithm \<Rightarrow> rng \<Rightarrow> error + (('g list option \<times> 'g list option) \<times> rng)" where
  "tournament e r =
     (case randint 0 (pop_size e) 8 r of
        Inl err \<Rightarrow> Inl err
      | Inr (participants, r') \<Rightarrow>
          (case tournament_scan (population_fitness e) participants None None of
             Inl err \<Rightarrow> Inl err
           | Inr (max_1, max_2) \<Rightarrow>
               (case index_opt (population e) max_1 of
                  Inl err \<Rightarrow> Inl err
                | Inr parent_1 \<Rightarrow>
                    (case index_opt (population e) max_2 of
                       Inl err \<Rightarrow> Inl err
                     | Inr parent_2 \<Rightarrow> Inr ((Some parent_1, Some parent_2), r')))))"

subsection \<open>Crossover and mutation\<close>

text \<open>
  The non-viable branch: the breakpoint from \<^verbatim>\<open>randint(1, len(parent_1)-1)\<close>, then one
  \<^verbatim>\<open>random()\<close> draw that chooses which parent gives the head.
\<close>

definition single_point_crossover ::
  "'g list \<Rightarrow> 'g list \<Rightarrow> rng \<Rightarrow> error + ('g list \<times> rng)" where
  "single_point_crossover parent_1 parent_2 r =
     (case randint1 1 (int (length parent_1) - 1) r of
        Inl err \<Rightarrow> Inl err
      | Inr (gen_breakpoint_index, r1) \<Rightarrow>
          (case random r1 of (u, r2) \<Rightarrow>
             if u < 1 / 2
             then Inr (take (nat gen_breakpoint_index) parent_1
                        @ drop (nat gen_breakpoint_index) parent_2, r2)
             else Inr (take (nat gen_breakpoint_index) parent_2
                        @ drop (nat gen_breakpoint_index) parent_1, r2)))"

text \<open>
  A parent that is still \<open>None\<close> raises TypeError: at \<^verbatim>\<open>len(parent_1)\<close>, or at the slice
  of \<open>parent_2\<close> after the two draws; in viable mode the caller's crossover is taken to
  raise it.
\<close>

definition crossover ::
  "'g GeneticAlgorithm \<Rightarrow> 'g list option \<times> 'g list option \<Rightarrow> rng \<Rightarrow> error + ('g list \<times> rng)" where
  "crossover e parents r =
     (if individual_viability_check e then
        (case viable_crossover e of
           None \<Rightarrow> Inl TypeError
         | Some vc \<Rightarrow>
             (case parents of
                (Some parent_1, Some parent_2) \<Rightarrow>
                  (case vc parent_1 parent_2 r of
                     (c, r') \<Rightarrow> Inr (child_value parent_1 parent_2 c, r'))
              | _ \<Rightarrow> Inl TypeError))
      else
        (case parents of
           (None, _) \<Rightarrow> Inl TypeError
         | (Some parent_1, None) \<Rightarrow>
             (case randint1 1 (int (length parent_1) - 1) r of
                Inl err \<Rightarrow> Inl err
              | Inr _ \<Rightarrow> Inl TypeError)
         | (Some parent_1, Some parent_2) \<Rightarrow> single_point_crossover parent_1 parent_2 r))"

text \<open>The mutation loop, over the indices of \<^verbatim>\<open>range(len(child))\<close>.\<close>

fun mutation_loop ::
  "'g GeneticAlgorithm \<Rightarrow> nat list \<Rightarrow> 'g list \<Rightarrow> rng \<Rightarrow> error + ('g list \<times> rng)" where
  "mutation_loop e [] child r = Inr (child, r)"
| "mutation_loop e (i # rest) child r =
     (case random r of (u, r1) \<Rightarrow>
        if u < mutation_rate e then
          (if individual_viability_check e then
             (case viable_mutation e of
                None \<Rightarrow> Inl TypeError
              | Some vm \<Rightarrow>
                  (case vm child i r1 of (g, r2) \<Rightarrow> mutation_loop e rest (child[i := g]) r2))
           else
             (case mutate e (child ! i) r1 of (g, r2) \<Rightarrow>
                mutation_loop e rest (child[i := g]) r2))
        else mutation_loop e rest child r1)"

definition mutation :: "'g GeneticAlgorithm \<Rightarrow> 'g list \<Rightarrow> rng \<Rightarrow> error + ('g list \<times> rng)" where
  "mutation e child r = mutation_loop e [0..<length child] child r"

subsection \<open>Offspring and reproduction\<close>

definition select_parents ::
  "'g GeneticAlgorithm \<Rightarrow> int \<Rightarrow> int \<Rightarrow> rng
    \<Rightarrow> error + (('g list option \<times> 'g list option) \<times> rng)" where
  "select_parents e total_fitness mode r =
     (if mode = 0 then
        (case py_index (population_fitness e) 0 of
           Inl err \<Rightarrow> Inl err
         | Inr f0 \<Rightarrow> if f0 \<ge> 0 then roulette e total_fitness r else tournament e r)
      else tournament e r)"

definition produce_offspring ::
  "'g GeneticAlgorithm \<Rightarrow> int \<Rightarrow> int \<Rightarrow> rng \<Rightarrow> error + ('g list \<times> rng)" where
  "produce_offspring e total_fitness mode r =
     (case select_parents e total_fitness mode r of
        Inl err \<Rightarrow> Inl err
      | Inr (parents, r1) \<Rightarrow>
          (case crossover e parents r1 of
             Inl err \<Rightarrow> Inl err
           | Inr (child, r2) \<Rightarrow> mutation e child r2))"

text \<open>
  \<^verbatim>\<open>np.sum(self.__population_fitness)\<close>. numpy holds Python integers of the int64 range
  in an int64 array, and the sum of such an array wraps around at 64 bits. (Integers
  outside that range make numpy choose another dtype; the properties of whole generations
  are stated for fitness functions into the int64 range.)
\<close>

definition np_sum :: "int list \<Rightarrow> int" where
  "np_sum xs = (sum_list xs + 2 ^ 63) mod 2 ^ 64 - 2 ^ 63"

subsection \<open>Individuals as objects\<close>

text \<open>
  An individual is a Python list object and \<^verbatim>\<open>self.__population\<close> holds references to
  such objects. The assignment \<^verbatim>\<open>child[i] = ...\<close> of the mutation loop changes the
  object for every holder of a reference: when the caller's \<^verbatim>\<open>viable_crossover\<close>
  returns one of its arguments, the child is a member of the population that the later
  offspring of the step still select from, and it may be a best individual recorded
  before. An engine is the object with its attributes, its population as addresses,
  the contents of every list object, and the first address not in use.
\<close>

record 'g engine =
  attributes :: "'g GeneticAlgorithm"
  individuals :: "nat list"
  contents :: "nat \<Rightarrow> 'g list"
  allocated :: nat

text \<open>The attributes as a method reads them: the population with its present contents.\<close>

definition snapshot :: "'g engine \<Rightarrow> 'g GeneticAlgorithm" where
  "snapshot p = (attributes p)\<lparr>population := map (contents p) (individuals p)\<rparr>"

definition evaluate_engine :: "'g engine \<Rightarrow> 'g engine" where
  "evaluate_engine p = p\<lparr>attributes := evaluate (snapshot p)\<rparr>"

text \<open>
  The selection of lines 108 to 140 once more, by position: which members of the
  population the two parents are (the roulette walk over the positions, and the two
  indices of the tournament as the list reads them).
\<close>

definition roulette_positions ::
  "'g GeneticAlgorithm \<Rightarrow> int \<Rightarrow> rng \<Rightarrow> error + ((nat option \<times> nat option) \<times> rng)" where
  "roulette_positions e total_fitness r =
     (case randint 0 total_fitness 2 r of
        Inl err \<Rightarrow> Inl err
      | Inr (targets, r') \<Rightarrow>
          (case targets of
             [parent_1_fitness, parent_2_fitness] \<Rightarrow>
               (case roulette_walk [0..<length (population e)] 0 (population_fitness e)
                       parent_1_fitness parent_2_fitness 0 None None of
                  Inl err \<Rightarrow> Inl err
                | Inr positions \<Rightarrow> Inr (positions, r'))
           | _ \<Rightarrow> Inl ValueError))"

definition tournament_positions ::
  "'g GeneticAlgorithm \<Rightarrow> rng \<Rightarrow> error + ((nat option \<times> nat option) \<times> rng)" where
  "tournament_positions e r =
     (case randint 0 (pop_size e) 8 r of
        Inl err \<Rightarrow> Inl err
      | Inr (participants, r') \<Rightarrow>
          (case tournament_scan (population_fitness e) participants None None of
             Inl err \<Rightarrow> Inl err
           | Inr (max_1, max_2) \<Rightarrow>
               (case index_opt [0..<length (population e)] max_1 of
                  Inl err \<Rightarrow> Inl err
                | Inr position_1 \<Rightarrow>
                    (case index_opt [0..<length (population e)] max_2 of
                       Inl err \<Rightarrow> Inl err
                     | Inr position_2 \<Rightarrow> Inr ((Some position_1, Some position_2), r')))))"

definition select_positions ::
  "'g GeneticAlgorithm \<Rightarrow> int \<Rightarrow> int \<Rightarrow> rng \<Rightarrow> error + ((nat option \<times> nat option) \<times> rng)" where
  "select_positions e total_fitness mode r =
     (if mode = 0 then
        (case py_index (population_fitness e) 0 of
           Inl err \<Rightarrow> Inl err
         | Inr f0 \<Rightarrow>
             if f0 \<ge> 0 then roulette_positions e total_fitness r else tournament_positions e r)
      else tournament_positions e r)"

text \<open>
  The object that the crossover of an offspring hands to the mutation loop: the position
  of the parent that the caller's \<^verbatim>\<open>viable_crossover\<close> returned, or \<open>None\<close> for a list
  that is in no population yet (always so in non-viable mode, where the child is a
  concatenation of two slices).
\<close>

definition returned_parent :: "'g GeneticAlgorithm \<Rightarrow> int \<Rightarrow> int \<Rightarrow> rng \<Rightarrow> nat option" where
  "returned_parent e total_fitness mode r =
     (if individual_viability_check e then
        (case select_positions e total_fitness mode r of
           Inr ((Some position_1, Some position_2), r1) \<Rightarrow>
             (case viable_crossover e of
                Some vc \<Rightarrow>
                  (case fst (vc (population e ! position_1) (population e ! position_2) r1) of
                     Parent_1 \<Rightarrow> Some position_1
                   | Parent_2 \<Rightarrow> Some position_2
                   | New_list xs \<Rightarrow> None)
              | None \<Rightarrow> None)
         | _ \<Rightarrow> None)
      else None)"

text \<open>
  \<^verbatim>\<open>__produce_offspring\<close> on the objects: the child's contents are those of
  \<open>produce_offspring\<close> on the present contents of the population; they are written to the
  parent object that the child is, or to a new object. The result is the child's address.
\<close>

definition produce_offspring_object ::
  "'g engine \<Rightarrow> int \<Rightarrow> int \<Rightarrow> rng \<Rightarrow> error + (nat \<times> 'g engine \<times> rng)" where
  "produce_offspring_object p total_fitness mode r =
     (case produce_offspring (snapshot p) total_fitness mode r of
        Inl err \<Rightarrow> Inl err
      | Inr (child, r') \<Rightarrow>
          (case returned_parent (snapshot p) total_fitness mode r of
             Some position \<Rightarrow>
               Inr (individuals p ! position,
                    p\<lparr>contents := (contents p)(individuals p ! position := child)\<rparr>, r')
           | None \<Rightarrow>
               Inr (allocated p,
                    p\<lparr>contents := (contents p)(allocated p := child),
                      allocated := Suc (allocated p)\<rparr>, r')))"

text \<open>
  \<^verbatim>\<open>[self.__produce_offspring(total_fitness) for _ in range(self.__pop_size)]\<close>: the
  mode is left at its default 0; the first exception ends the comprehension; the
  population and its fitness vector stay as they are while the list is built, the
  contents of the individuals need not.
\<close>

fun offspring ::
  "'g engine \<Rightarrow> int \<Rightarrow> nat \<Rightarrow> rng \<Rightarrow> error + (nat list \<times> 'g engine \<times> rng)" where
  "offspring p total_fitness 0 r = Inr ([], p, r)"
| "offspring p total_fitness (Suc n) r =
     (case produce_offspring_object p total_fitness 0 r of
        Inl err \<Rightarrow> Inl err
      | Inr (child, p1, r1) \<Rightarrow>
          (case offspring p1 total_fitness n r1 of
             Inl err \<Rightarrow> Inl err
           | Inr (children, p2, r2) \<Rightarrow> Inr (child # children, p2, r2)))"

definition reproduce :: "'g engine \<Rightarrow> rng \<Rightarrow> error + ('g engine \<times> rng)" where
  "reproduce p r =
     (case offspring p (np_sum (population_fitness (attributes p)))
             (nat (pop_size (attributes p))) r of
        Inl err \<Rightarrow> Inl err
      | Inr (new_population, p', r') \<Rightarrow> Inr (p'\<lparr>individuals := new_population\<rparr>, r'))"

subsection \<open>The simulation\<close>

text \<open>
  The four lists of the result. While the loop runs, a best individual is a reference
  (\<open>'i\<close> is an address); the caller reads the contents that the objects have when
  \<^verbatim>\<open>simulate\<close> returns (\<open>'i\<close> is a list of genes). \<open>'f\<close> is the type of numpy's
  averages.
\<close>

record ('f, 'i) results =
  best_individual_data :: "int list"
  worst_individual_data :: "int list"
  generation_average_data :: "'f list"
  historic_best_individual :: "'i list"

text \<open>
  \<^verbatim>\<open>np.max\<close> and \<^verbatim>\<open>np.min\<close> raise ValueError on an empty sequence; \<^verbatim>\<open>np.argmax\<close>
  is the first index of the maximum. \<^verbatim>\<open>np.average\<close> computes in double arithmetic,
  which is not modelled: the function is a parameter of the simulation.
\<close>

definition np_max :: "int list \<Rightarrow> error + int" where
  "np_max xs = (case xs of [] \<Rightarrow> Inl ValueError | x # rest \<Rightarrow> Inr (fold max rest x))"

definition np_min :: "int list \<Rightarrow> error + int" where
  "np_min xs = (case xs of [] \<Rightarrow> Inl ValueError | x # rest \<Rightarrow> Inr (fold min rest x))"

definition np_argmax :: "int list \<Rightarrow> error + nat" where
  "np_argmax xs =
     (case xs of
        [] \<Rightarrow> Inl ValueError
      | x # rest \<Rightarrow> Inr (length (takeWhile (\<lambda>y. y \<noteq> fold max rest x) xs)))"

text \<open>Lines 198 to 221: the four metrics of the evaluated generation, appended.\<close>

definition record_generation ::
  "(int list \<Rightarrow> 'f) \<Rightarrow> 'g engine \<Rightarrow> ('f, nat) results \<Rightarrow> error + ('f, nat) results" where
  "record_generation np_average p res =
     (case np_max (population_fitness (attributes p)) of
        Inl err \<Rightarrow> Inl err
      | Inr actual_best_individual_fitness \<Rightarrow>
          (case np_min (population_fitness (attributes p)) of
             Inl err \<Rightarrow> Inl err
           | Inr actual_worst_individual_fitness \<Rightarrow>
               (case np_argmax (population_fitness (attributes p)) of
                  Inl err \<Rightarrow> Inl err
                | Inr best_index \<Rightarrow>
                    (case py_index (individuals p) (int best_index) of
                       Inl err \<Rightarrow> Inl err
                     | Inr actual_best_individual \<Rightarrow>
                         Inr (res\<lparr>
                           best_individual_data :=
                             best_individual_data res @ [actual_best_individual_fitness],
                           worst_individual_data :=
                             worst_individual_data res @ [actual_worst_individual_fitness],
                           generation_average_data :=
                             generation_average_data res
                               @ [np_average (population_fitness (attributes p))],
                           historic_best_individual :=
                             historic_best_individual res @ [actual_best_individual]\<rparr>)))))"

text \<open>\<^verbatim>\<open>True in map(self.__termination_condition, self.__population_fitness)\<close>.\<close>

definition termination_met :: "'g GeneticAlgorithm \<Rightarrow> bool" where
  "termination_met e = (True \<in> set (map (termination_condition e) (population_fitness e)))"

text \<open>
  The loop of \<^verbatim>\<open>simulate\<close>, by the number of iterations that \<^verbatim>\<open>range(1, max_iter+1)\<close>
  still has. The engine and the tape are returned with the results: the object's state
  outlives the call.
\<close>

fun simulate_loop ::
  "(int list \<Rightarrow> 'f) \<Rightarrow> nat \<Rightarrow> 'g engine \<Rightarrow> ('f, nat) results \<Rightarrow> rng
    \<Rightarrow> error + (('f, nat) results \<times> 'g engine \<times> rng)" where
  "simulate_loop np_average 0 p res r = Inr (res, p, r)"
| "simulate_loop np_average (Suc n) p res r =
     (case record_generation np_average (evaluate_engine p) res of
        Inl err \<Rightarrow> Inl err
      | Inr res1 \<Rightarrow>
          if termination_met (attributes (evaluate_engine p))
          then Inr (res1, evaluate_engine p, r)
          else
            (case reproduce (evaluate_engine p) r of
               Inl err \<Rightarrow> Inl err
             | Inr (p2, r2) \<Rightarrow> simulate_loop np_average n p2 res1 r2))"

definition simulate ::
  "(int list \<Rightarrow> 'f) \<Rightarrow> 'g engine \<Rightarrow> bool \<Rightarrow> rng
    \<Rightarrow> error + (('f, 'g list) results \<times> 'g engine \<times> rng)" where
  "simulate np_average p silent r =
     (case simulate_loop np_average (nat (max_iter (attributes p))) p
             \<lparr> best_individual_data = [], worst_individual_data = [],
               generation_average_data = [], historic_best_individual = [] \<rparr> r of
        Inl err \<Rightarrow> Inl err
      | Inr (res, p', r') \<Rightarrow>
          Inr (\<lparr> best_individual_data = best_individual_data res,
                 worst_individual_data = worst_individual_data res,
                 generation_average_data = generation_average_data res,
                 historic_best_individual = map (contents p') (historic_best_individual res) \<rparr>,
               p', r'))"

text \<open>
  The engine and the tape after \<open>j\<close> whole generations (evaluation, then reproduction),
  whatever the termination condition says: generation \<open>j + 1\<close> of a run is the evaluation
  of this engine.
\<close>

fun generations :: "nat \<Rightarrow> 'g engine \<Rightarrow> rng \<Rightarrow> error + ('g engine \<times> rng)" where
  "generations 0 p r = Inr (p, r)"
| "generations (Suc j) p r =
     (case reproduce (evaluate_engine p) r of
        Inl err \<Rightarrow> Inl err
      | Inr (p', r') \<Rightarrow> generations j p' r')"

subsection \<open>A concrete problem\<close>

text \<open>
  Genes are naturals, the fitness of an individual is the sum of its genes, a factory
  call builds three consecutive genes from one raw draw, and a mutation adds one.
\<close>

definition sum_args :: "nat arguments" where
  "sum_args =
     \<lparr> pop_size = 2,
       mutation_rate = 0,
       fitness_function = (\<lambda>individual. int (sum_list individual)),
       individual_factory = (\<lambda>r. case next_raw r of (x, r') \<Rightarrow> ([x, x + 1, x + 2], r')),
       gene_factory = next_raw,
       mutate = (\<lambda>g r. (g + 1, r)),
       termination_condition = (\<lambda>f. f \<ge> 20),
       max_iter = 50,
       individual_viability_check = False,
       individual_viability_condition = None,
       viable_mutation = None,
       viable_crossover = None,
       viable_individual_factory = None \<rparr>"

subsection \<open>Notions of the specification\<close>

text \<open>
  The capabilities of the viability bundle that are absent, by the names the constructor
  reports, in the order of the bundle.
\<close>

definition missing_capabilities :: "'g arguments \<Rightarrow> string list" where
  "missing_capabilities a =
     (if individual_viability_condition a = None then [''individual_viability_condition''] else [])
     @ (if viable_mutation a = None then [''viable_mutation''] else [])
     @ (if viable_crossover a = None then [''viable_crossover''] else [])
     @ (if viable_individual_factory a = None then [''viable_individual_factory''] else [])"

text \<open>An index that a list accepts without counting from the end.\<close>

definition valid_index :: "'a list \<Rightarrow> int \<Rightarrow> bool" where
  "valid_index xs i = (0 \<le> i \<and> i < int (length xs))"

text \<open>Index \<open>m\<close> holds the maximum of the fitness vector, and no other index does.\<close>

definition unique_maximum :: "int list \<Rightarrow> nat \<Rightarrow> bool" where
  "unique_maximum fit m =
     (m < length fit \<and> (\<forall>j\<in>{0..<length fit}. j \<noteq> m \<longrightarrow> fit ! j < fit ! m))"

text \<open>The object after the constructor's population \<open>[[1, 2, 3], [7, 8, 9]]\<close> was evaluated.\<close>

definition two_individuals :: "nat GeneticAlgorithm" where
  "two_individuals = evaluate (new_object sum_args [[1, 2, 3], [7, 8, 9]])"

text \<open>
  The first individual, in population order, at which the running sum of the absolute
  fitness values (from \<open>acc\<close>) reaches or exceeds the target.
\<close>

fun first_reaching :: "'g list list \<Rightarrow> int list \<Rightarrow> int \<Rightarrow> int \<Rightarrow> 'g list option" where
  "first_reaching [] fit target acc = None"
| "first_reaching (individual # rest) [] target acc = None"
| "first_reaching (individual # rest) (f # fs) target acc =
     (if acc + \<bar>f\<bar> \<ge> target then Some individual
      else first_reaching rest fs target (acc + \<bar>f\<bar>))"

text \<open>The evaluated object of a population whose fitness values are all zero.\<close>

definition zero_fitness :: "nat GeneticAlgorithm" where
  "zero_fitness = evaluate (new_object sum_args [[0, 0, 0], [0, 0, 0]])"

text \<open>
  The mutation function applied at every listed position, in order: a position's
  \<^verbatim>\<open>random()\<close> draw is consumed, whatever it is, and the gene is replaced by what
  the function returns on the child as it stands.
\<close>

fun mutate_every ::
  "('g list \<Rightarrow> nat \<Rightarrow> rng \<Rightarrow> 'g \<times> rng) \<Rightarrow> nat list \<Rightarrow> 'g list \<Rightarrow> rng \<Rightarrow> 'g list \<times> rng" where
  "mutate_every f [] child r = (child, r)"
| "mutate_every f (i # rest) child r =
     (case f child i (snd (random r)) of (g, r2) \<Rightarrow> mutate_every f rest (child[i := g]) r2)"

text \<open>The object of \<open>two_individuals\<close> with mutation rate 1, and one in viable mode.\<close>

definition always_mutating :: "nat GeneticAlgorithm" where
  "always_mutating = two_individuals\<lparr>mutation_rate := 1\<rparr>"

definition viable_mutating :: "nat GeneticAlgorithm" where
  "viable_mutating =
     two_individuals\<lparr>mutation_rate := 1, individual_viability_check := True,
       viable_mutation := Some (\<lambda>child i r. (child ! i + 10, r))\<rparr>"

text \<open>The object of \<open>two_individuals\<close> with a negative fitness at the first member.\<close>

definition negative_first :: "nat GeneticAlgorithm" where
  "negative_first = two_individuals\<lparr>population_fitness := [- 1, 5]\<rparr>"

text \<open>
  The factory of the mode, and the length contracts of the caller's functions: every
  call of the factory gives an individual of \<open>len\<close> genes, and the viable crossover
  gives a child of \<open>len\<close> genes from parents of \<open>len\<close> genes.
\<close>

definition appropriate_factory :: "('g, 'z) arguments_scheme \<Rightarrow> rng \<Rightarrow> 'g list \<times> rng" where
  "appropriate_factory a =
     (if individual_viability_check a
      then (case viable_individual_factory a of Some f \<Rightarrow> f | None \<Rightarrow> individual_factory a)
      else individual_factory a)"

definition factory_gives_length :: "('g, 'z) arguments_scheme \<Rightarrow> nat \<Rightarrow> bool" where
  "factory_gives_length a len = (\<forall>r. length (fst (appropriate_factory a r)) = len)"

definition crossover_keeps_length :: "('g, 'z) arguments_scheme \<Rightarrow> nat \<Rightarrow> bool" where
  "crossover_keeps_length a len =
     (\<forall>vc. individual_viability_check a \<and> viable_crossover a = Some vc \<longrightarrow>
        (\<forall>p1 p2 r. length p1 = len \<and> length p2 = len \<longrightarrow>
           length (child_value p1 p2 (fst (vc p1 p2 r))) = len))"

text \<open>
  numpy holds a list of Python integers as an int64 array when each of them is in the
  int64 range, and \<^verbatim>\<open>np.sum\<close> then wraps as \<open>np_sum\<close> does; for other values it chooses
  another element type. The statements about whole generations are for fitness
  functions with values in that range.
\<close>

definition fitness_in_int64 :: "('g, 'z) arguments_scheme \<Rightarrow> bool" where
  "fitness_in_int64 a =
     (\<forall>individual. - (2 ^ 63) \<le> fitness_function a individual
        \<and> fitness_function a individual < 2 ^ 63)"

text \<open>
  The members of the population are objects in use, so that a new list is none of them;
  and an engine as the constructor leaves it: the attributes are those of the
  constructed object and the objects of the population hold the individuals that the
  factory built.
\<close>

definition addresses_allocated :: "'g engine \<Rightarrow> bool" where
  "addresses_allocated p = (\<forall>a\<in>set (individuals p). a < allocated p)"

definition constructed :: "'g GeneticAlgorithm \<Rightarrow> 'g engine \<Rightarrow> bool" where
  "constructed e p =
     (attributes p = e \<and> map (contents p) (individuals p) = population e
      \<and> addresses_allocated p)"

text \<open>
  A viable configuration whose crossover returns its first parent and whose mutation
  adds ten to a gene, at mutation rate 1: every offspring is a member of the population,
  changed in place. The engine after its construction from the draws 1 and 7, and the
  engine after one generation with the tape \<open>[20, 20, 0, 0, 0, 20, 20]\<close>: both offspring
  are the second object, which the first offspring leaves as \<open>[17, 18, 19]\<close> and the
  second as \<open>[27, 28, 29]\<close>.
\<close>

definition aliasing_args :: "nat arguments" where
  "aliasing_args =
     sum_args\<lparr>mutation_rate := 1,
       fitness_function := (\<lambda>individual. min 1000 (int (sum_list individual))),
       termination_condition := (\<lambda>f. f \<ge> 25),
       individual_viability_check := True,
       individual_viability_condition := Some (\<lambda>individual. True),
       viable_mutation := Some (\<lambda>child i r. (child ! i + 10, r)),
       viable_crossover := Some (\<lambda>parent_1 parent_2 r. (Parent_1, r)),
       viable_individual_factory :=
         Some (\<lambda>r. case next_raw r of (x, r') \<Rightarrow> ([x, x + 1, x + 2], r'))\<rparr>"

definition aliasing_start :: "nat engine" where
  "aliasing_start =
     \<lparr> attributes = new_object aliasing_args [[1, 2, 3], [7, 8, 9]],
       individuals = [0, 1],
       contents = (\<lambda>a. if a = 0 then [1, 2, 3] else [7, 8, 9]),
       allocated = 2 \<rparr>"

definition aliasing_next :: "nat engine" where
  "aliasing_next =
     (evaluate_engine aliasing_start)
       \<lparr>contents := (contents aliasing_start)(1 := [27, 28, 29]), individuals := [1, 1]\<rparr>"

section \<open>Verified properties\<close>

subsection \<open>Construction\<close>

lemma length_calls: "calls f n r = (xs, r') \<Longrightarrow> length xs = n"
  by (induction n arbitrary: r xs r') (auto split: prod.splits)

lemma population_new_object [simp]: "population (new_object a pop) = pop"
  by (simp add: new_object_def)

text \<open>
  Claim C4. With \<open>individual_viability_check\<close> set and a capability of the viability
  bundle absent, construction fails with the error that carries the name of an absent
  capability (the first one in the order of the checks), so no object and no population
  exist; with the check off, or all four present, construction returns an object, whose
  population has \<open>pop_size\<close> members. The source raises \<^verbatim>\<open>NotImplementedError\<close>, the
  specification's ConfigurationError.
\<close>

theorem init_viability_bundle:
  "(individual_viability_check a \<and> missing_capabilities a \<noteq> [] \<longrightarrow>
      hd (missing_capabilities a) \<in> set (missing_capabilities a) \<and>
      init a r = Inl (NotImplementedError (hd (missing_capabilities a))))
   \<and> (\<not> individual_viability_check a \<or> missing_capabilities a = [] \<longrightarrow>
      (\<exists>e r'. init a r = Inr (e, r') \<and> length (population e) = nat (pop_size a)))"
proof (intro conjI impI)
  assume h: "individual_viability_check a \<and> missing_capabilities a \<noteq> []"
  then show "hd (missing_capabilities a) \<in> set (missing_capabilities a)" by simp
  from h show "init a r = Inl (NotImplementedError (hd (missing_capabilities a)))"
    by (auto simp: init_def missing_capabilities_def split: if_splits)
next
  assume h: "\<not> individual_viability_check a \<or> missing_capabilities a = []"
  show "\<exists>e r'. init a r = Inr (e, r') \<and> length (population e) = nat (pop_size a)"
  proof (cases "individual_viability_check a")
    case False
    obtain pop r' where c: "calls (individual_factory a) (nat (pop_size a)) r = (pop, r')"
      by (cases "calls (individual_factory a) (nat (pop_size a)) r")
    from length_calls [OF c] have "length pop = nat (pop_size a)" .
    with False c show ?thesis by (simp add: init_def)
  next
    case True
    with h have m: "missing_capabilities a = []" by simp
    then obtain f where f: "viable_individual_factory a = Some f"
      by (auto simp: missing_capabilities_def split: if_splits)
    from m have others: "individual_viability_condition a \<noteq> None"
      "viable_mutation a \<noteq> None" "viable_crossover a \<noteq> None"
      by (auto simp: missing_capabilities_def split: if_splits)
    obtain pop r' where c: "calls f (nat (pop_size a)) r = (pop, r')"
      by (cases "calls f (nat (pop_size a)) r")
    from length_calls [OF c] have "length pop = nat (pop_size a)" .
    with True f others c show ?thesis by (simp add: init_def)
  qed
qed

theorem init_viability_bundle_witness:
  "init (sum_args\<lparr>individual_viability_check := True,
                  individual_viability_condition := Some (\<lambda>individual. True)\<rparr>) [1, 7]
     = Inl (NotImplementedError ''viable_mutation'')
   \<and> (\<exists>e r'. init sum_args [1, 7] = Inr (e, r') \<and> length (population e) = 2)"
  using init_viability_bundle [of "sum_args\<lparr>individual_viability_check := True,
                  individual_viability_condition := Some (\<lambda>individual. True)\<rparr>" "[1, 7]"]
    init_viability_bundle [of sum_args "[1, 7]"]
  by (simp add: sum_args_def missing_capabilities_def)

subsection \<open>The random source and indexing\<close>

lemma py_index_valid: "valid_index xs i \<Longrightarrow> py_index xs i = Inr (xs ! nat i)"
  by (simp add: py_index_def valid_index_def)

lemma scale_bounds:
  assumes "low < high"
  shows "low \<le> scale low high x \<and> scale low high x < high"
proof -
  from assms have p: "0 < high - low" by simp
  have "0 \<le> int x mod (high - low)" using p by (rule pos_mod_sign)
  moreover have "int x mod (high - low) < high - low" using p by (rule pos_mod_bound)
  ultimately show ?thesis unfolding scale_def by linarith
qed

lemma draw_ints_bounds:
  "draw_ints low high n r = (xs, r') \<Longrightarrow> low < high \<Longrightarrow>
     length xs = n \<and> (\<forall>x\<in>set xs. low \<le> x \<and> x < high)"
  by (induction n arbitrary: r xs r') (auto split: prod.splits simp: scale_bounds)

lemma randint_bounds:
  "randint low high n r = Inr (xs, r') \<Longrightarrow> length xs = n \<and> (\<forall>x\<in>set xs. low \<le> x \<and> x < high)"
  by (auto simp: randint_def split: if_splits dest: draw_ints_bounds)

subsection \<open>Tournament selection\<close>

lemma scan_both_bound:
  "\<forall>d\<in>set ds. valid_index fit d \<Longrightarrow> valid_index fit m1 \<Longrightarrow> valid_index fit m2 \<Longrightarrow>
   \<exists>a b. tournament_scan fit ds (Some m1) (Some m2) = Inr (Some a, Some b)
     \<and> a \<in> insert m1 (set ds) \<and> b \<in> insert m1 (insert m2 (set ds))"
proof (induction ds arbitrary: m1 m2)
  case Nil
  then show ?case by simp
next
  case (Cons d ds)
  have vd: "valid_index fit d" and vds: "\<forall>x\<in>set ds. valid_index fit x"
    using Cons.prems(1) by simp_all
  note v1 = Cons.prems(2) and v2 = Cons.prems(3)
  consider (beats_best) "fit ! nat d > fit ! nat m1"
    | (beats_second) "\<not> fit ! nat d > fit ! nat m1" "fit ! nat d > fit ! nat m2"
    | (weaker) "\<not> fit ! nat d > fit ! nat m1" "\<not> fit ! nat d > fit ! nat m2"
    by blast
  then show ?case
  proof cases
    case beats_best
    from Cons.IH [OF vds vd v1] obtain a b where
      "tournament_scan fit ds (Some d) (Some m1) = Inr (Some a, Some b)"
      "a \<in> insert d (set ds)" "b \<in> insert d (insert m1 (set ds))" by blast
    with beats_best vd v1 v2 show ?thesis
      by (auto simp: py_index_valid)
  next
    case beats_second
    from Cons.IH [OF vds v1 vd] obtain a b where
      "tournament_scan fit ds (Some m1) (Some d) = Inr (Some a, Some b)"
      "a \<in> insert m1 (set ds)" "b \<in> insert m1 (insert d (set ds))" by blast
    with beats_second vd v1 v2 show ?thesis
      by (auto simp: py_index_valid)
  next
    case weaker
    from Cons.IH [OF vds v1 v2] obtain a b where
      "tournament_scan fit ds (Some m1) (Some m2) = Inr (Some a, Some b)"
      "a \<in> insert m1 (set ds)" "b \<in> insert m1 (insert m2 (set ds))" by blast
    with weaker vd v1 v2 show ?thesis
      by (auto simp: py_index_valid)
  qed
qed

lemma scan_two_draws:
  assumes "\<forall>d\<in>set (d1 # d2 # ds). valid_index fit d"
  shows "\<exists>a b. tournament_scan fit (d1 # d2 # ds) None None = Inr (Some a, Some b)
     \<and> a \<in> set (d1 # d2 # ds) \<and> b \<in> set (d1 # d2 # ds)"
proof -
  from assms have v1: "valid_index fit d1" and v2: "valid_index fit d2"
    and vds: "\<forall>d\<in>set ds. valid_index fit d" by simp_all
  show ?thesis
  proof (cases "fit ! nat d2 > fit ! nat d1")
    case True
    from scan_both_bound [OF vds v2 v1] obtain a b where
      "tournament_scan fit ds (Some d2) (Some d1) = Inr (Some a, Some b)"
      "a \<in> insert d2 (set ds)" "b \<in> insert d2 (insert d1 (set ds))" by blast
    with True v1 v2 show ?thesis by (auto simp: py_index_valid)
  next
    case False
    from scan_both_bound [OF vds v1 v2] obtain a b where
      "tournament_scan fit ds (Some d1) (Some d2) = Inr (Some a, Some b)"
      "a \<in> insert d1 (set ds)" "b \<in> insert d1 (insert d2 (set ds))" by blast
    with False v1 v2 show ?thesis by (auto simp: py_index_valid)
  qed
qed

lemma scan_never_leaves_second_unset:
  "tournament_scan fit (d1 # d2 # ds) None None \<noteq> Inr (a, None)"
proof -
  have both: "tournament_scan fit xs (Some m1) (Some m2) \<noteq> Inr (x, None)" for xs m1 m2 x
    by (induction xs arbitrary: m1 m2) (auto split: sum.splits)
  show ?thesis
    using both by (auto split: sum.splits)
qed

lemma length_eight:
  "length (xs :: 'a list) = 8 \<Longrightarrow> \<exists>d1 d2 ds. xs = d1 # d2 # ds"
  by (cases xs; cases "tl xs") auto

text \<open>
  Claim C6, as the code has it. After the 8 draws of a tournament (all of them indices of
  the fitness vector, as \<^verbatim>\<open>randint(0, pop_size, 8)\<close> gives them) both slots are bound,
  each to one of the draws: the second draw already binds the runner-up, to the loser of
  the first comparison, which is the same index as the best when the draws repeat it.
\<close>

theorem tournament_runner_up_bound:
  assumes "length draws = 8" and "\<forall>d\<in>set draws. valid_index fit d"
  shows "\<exists>m1 m2. tournament_scan fit draws None None = Inr (Some m1, Some m2)
           \<and> m1 \<in> set draws \<and> m2 \<in> set draws"
proof -
  from length_eight [OF assms(1)] obtain d1 d2 ds where "draws = d1 # d2 # ds" by blast
  with scan_two_draws [of d1 d2 ds fit] assms(2) show ?thesis by simp
qed

theorem tournament_runner_up_bound_witness:
  "\<exists>m1 m2. tournament_scan [5, 5, 5] [0, 0, 0, 0, 0, 0, 0, 0] None None = Inr (Some m1, Some m2)
     \<and> m1 \<in> {0} \<and> m2 \<in> {0}"
  using tournament_runner_up_bound [of "[0, 0, 0, 0, 0, 0, 0, 0]" "[5, 5, 5]"]
  by (simp add: valid_index_def)

text \<open>
  Claim C6, as stated, fails: no fitness vector and no 8 draws leave the runner-up slot
  unset.
\<close>

theorem tournament_runner_up_unset_counterexample:
  "\<not> (\<exists>(fit :: int list) draws max_1. fit \<noteq> [] \<and> length draws = 8
        \<and> tournament_scan fit draws None None = Inr (max_1, None))"
proof
  assume "\<exists>(fit :: int list) draws max_1. fit \<noteq> [] \<and> length draws = 8
        \<and> tournament_scan fit draws None None = Inr (max_1, None)"
  then obtain fit :: "int list" and draws max_1 where
    l: "length draws = 8" and s: "tournament_scan fit draws None None = Inr (max_1, None)"
    by blast
  from length_eight [OF l] obtain d1 d2 ds where "draws = d1 # d2 # ds" by blast
  with s scan_never_leaves_second_unset [of fit d1 d2 ds max_1] show False by simp
qed

lemma scan_keeps_unique_maximum:
  "unique_maximum fit m \<Longrightarrow> \<forall>d\<in>set ds. valid_index fit d \<Longrightarrow> valid_index fit m1 \<Longrightarrow>
   (\<forall>m2. max_2 = Some m2 \<longrightarrow> valid_index fit m2) \<Longrightarrow> m1 = int m \<or> int m \<in> set ds \<Longrightarrow>
   \<exists>b. tournament_scan fit ds (Some m1) max_2 = Inr (Some (int m), b)"
proof (induction ds arbitrary: m1 max_2)
  case Nil
  then show ?case by simp
next
  case (Cons d ds)
  have vd: "valid_index fit d" and vds: "\<forall>x\<in>set ds. valid_index fit x"
    using Cons.prems(2) by simp_all
  note u = Cons.prems(1) and v1 = Cons.prems(3) and v2 = Cons.prems(4)
  have lt_m: "fit ! nat j < fit ! m" if "valid_index fit j" "j \<noteq> int m" for j
  proof -
    from that have "nat j \<in> {0..<length fit}" "nat j \<noteq> m"
      by (auto simp: valid_index_def)
    with u show ?thesis by (simp add: unique_maximum_def)
  qed
  show ?case
  proof (cases "fit ! nat d > fit ! nat m1")
    case True
    have "m1 \<noteq> int m"
    proof
      assume "m1 = int m"
      with True have "fit ! m < fit ! nat d" by simp
      moreover have "fit ! nat d \<le> fit ! m"
        using lt_m [OF vd] by (cases "d = int m") auto
      ultimately show False by simp
    qed
    with Cons.prems(5) have "d = int m \<or> int m \<in> set ds" by auto
    from Cons.IH [OF u vds vd _ this, of "Some m1"] v1
    obtain b where "tournament_scan fit ds (Some d) (Some m1) = Inr (Some (int m), b)" by auto
    with True vd v1 show ?thesis by (auto simp: py_index_valid)
  next
    case False
    have "d \<noteq> int m \<or> m1 = int m"
    proof (rule ccontr)
      assume "\<not> (d \<noteq> int m \<or> m1 = int m)"
      then have "d = int m" "m1 \<noteq> int m" by auto
      with lt_m [OF v1] have "fit ! nat m1 < fit ! nat d" by simp
      with False show False by simp
    qed
    with Cons.prems(5) have keep: "m1 = int m \<or> int m \<in> set ds" by auto
    show ?thesis
    proof (cases max_2)
      case None
      from Cons.IH [OF u vds v1 _ keep, of "Some d"] vd
      obtain b where "tournament_scan fit ds (Some m1) (Some d) = Inr (Some (int m), b)" by auto
      with False None vd v1 show ?thesis by (auto simp: py_index_valid)
    next
      case (Some m2)
      with v2 have vm2: "valid_index fit m2" by simp
      from Cons.IH [OF u vds v1 _ keep, of "Some d"] vd
      obtain b where b: "tournament_scan fit ds (Some m1) (Some d) = Inr (Some (int m), b)"
        by auto
      from Cons.IH [OF u vds v1 _ keep, of "Some m2"] vm2
      obtain b' where b': "tournament_scan fit ds (Some m1) (Some m2) = Inr (Some (int m), b')"
        by auto
      from False Some vd v1 vm2 b b' show ?thesis by (auto simp: py_index_valid)
    qed
  qed
qed

text \<open>
  Claim C7. In a population whose fitness vector has its maximum at index \<open>m\<close> only,
  a tournament whose 8 draws contain \<open>m\<close> returns the individual at \<open>m\<close> as parent 1
  (and some individual as parent 2).
\<close>

theorem tournament_selects_unique_maximum:
  assumes size: "pop_size e = int (length (population e))"
    and aligned: "length (population_fitness e) = length (population e)"
    and best: "unique_maximum (population_fitness e) m"
    and draws: "randint 0 (pop_size e) 8 r = Inr (participants, r')"
    and sampled: "int m \<in> set participants"
  shows "\<exists>parent_2. tournament e r = Inr ((Some (population e ! m), Some parent_2), r')"
proof -
  let ?fit = "population_fitness e"
  from randint_bounds [OF draws] size aligned
  have len: "length participants = 8" and valid: "\<forall>d\<in>set participants. valid_index ?fit d"
    by (auto simp: valid_index_def)
  from length_eight [OF len] obtain d1 d2 ds where ps: "participants = d1 # d2 # ds" by blast
  from scan_two_draws [of d1 d2 ds ?fit] valid ps obtain a b where
    ab: "tournament_scan ?fit participants None None = Inr (Some a, Some b)"
    and b_in: "b \<in> set participants" by auto
  from valid ps sampled have "d1 = int m \<or> int m \<in> set (d2 # ds)" by auto
  from scan_keeps_unique_maximum [OF best _ _ _ this, of None] valid ps
  obtain b' where "tournament_scan ?fit (d2 # ds) (Some d1) None = Inr (Some (int m), b')"
    by auto
  with ab ps have a: "a = int m" by simp
  from b_in valid aligned have vb: "valid_index (population e) b" by (simp add: valid_index_def)
  from best aligned have vm: "valid_index (population e) (int m)"
    by (simp add: unique_maximum_def valid_index_def)
  from draws ab a vb vm show ?thesis
    by (simp add: tournament_def index_opt_def py_index_valid)
qed

theorem tournament_selects_unique_maximum_witness:
  "tournament two_individuals [0, 1] = Inr ((Some [7, 8, 9], Some [1, 2, 3]), [])"
proof -
  have u: "unique_maximum (population_fitness two_individuals) 1"
    by (simp add: unique_maximum_def two_individuals_def evaluate_def new_object_def sum_args_def
        atLeast0_lessThan_Suc)
  have d: "randint 0 (pop_size two_individuals) 8 [0, 1]
             = Inr ([0, 1, 0, 0, 0, 0, 0, 0], [])"
    by (simp add: randint_def two_individuals_def evaluate_def new_object_def sum_args_def
        scale_def eval_nat_numeral)
  from tournament_selects_unique_maximum [OF _ _ u d]
  obtain parent_2 where
    t: "tournament two_individuals [0, 1] = Inr ((Some [7, 8, 9], Some parent_2), [])"
    by (auto simp: two_individuals_def evaluate_def new_object_def sum_args_def)
  have "tournament two_individuals [0, 1] = Inr ((Some [7, 8, 9], Some [1, 2, 3]), [])"
    by (simp add: tournament_def randint_def two_individuals_def evaluate_def new_object_def
        sum_args_def scale_def eval_nat_numeral py_index_def index_opt_def)
  then show ?thesis using t by simp
qed

subsection \<open>The concrete objects\<close>

lemma two_individuals_fields:
  "population two_individuals = [[1, 2, 3], [7, 8, 9]]"
  "population_fitness two_individuals = [6, 24]"
  "pop_size two_individuals = 2"
  "individual_viability_check two_individuals = False"
  "mutation_rate two_individuals = 0"
  by (simp_all add: two_individuals_def evaluate_def new_object_def sum_args_def)

lemma zero_fitness_fields:
  "population zero_fitness = [[0, 0, 0], [0, 0, 0]]"
  "population_fitness zero_fitness = [0, 0]"
  "pop_size zero_fitness = 2"
  by (simp_all add: zero_fitness_def evaluate_def new_object_def sum_args_def)

subsection \<open>Roulette selection\<close>

text \<open>
  When the walk ends with both parents bound, they are one and the same individual: a
  parent bound early is assigned again at every later iteration, the running total only
  growing.
\<close>

lemma roulette_walk_one_individual:
  "roulette_walk pop i fit t1 t2 tot p1 p2 = Inr (Some a, Some b) \<Longrightarrow>
   p1 = None \<or> tot \<ge> t1 \<Longrightarrow> p2 = None \<or> tot \<ge> t2 \<Longrightarrow> p1 = None \<or> p2 = None \<Longrightarrow> a = b"
proof (induction pop arbitrary: i tot p1 p2)
  case Nil
  then show ?case by auto
next
  case (Cons individual rest)
  from Cons.prems(1) obtain f where f: "py_index fit (int i) = Inr f"
    by (auto split: sum.splits)
  let ?tot = "tot + \<bar>f\<bar>"
  have grow: "tot \<le> ?tot" by simp
  show ?case
  proof (cases "t1 \<le> ?tot")
    case first: True
    show ?thesis
    proof (cases "t2 \<le> ?tot")
      case True
      with first f Cons.prems(1) show ?thesis by (auto simp: Let_def)
    next
      case False
      with grow Cons.prems(3) have p2: "p2 = None" by auto
      from first False f p2 Cons.prems(1) have
        "roulette_walk rest (Suc i) fit t1 t2 ?tot (Some individual) None = Inr (Some a, Some b)"
        by (simp add: Let_def)
      from Cons.IH [OF this] first show ?thesis by simp
    qed
  next
    case no_first: False
    with grow Cons.prems(2) have p1: "p1 = None" by auto
    show ?thesis
    proof (cases "t2 \<le> ?tot")
      case True
      from no_first True f p1 Cons.prems(1) have
        "roulette_walk rest (Suc i) fit t1 t2 ?tot None (Some individual) = Inr (Some a, Some b)"
        by (simp add: Let_def)
      from Cons.IH [OF this] True show ?thesis by simp
    next
      case False
      with grow Cons.prems(3) have p2: "p2 = None" by auto
      from no_first False f p1 p2 Cons.prems(1) have
        "roulette_walk rest (Suc i) fit t1 t2 ?tot None None = Inr (Some a, Some b)"
        by (simp add: Let_def)
      from Cons.IH [OF this] show ?thesis by simp
    qed
  qed
qed

text \<open>
  Claim C2, at the population \<open>[[1, 2, 3], [7, 8, 9]]\<close> with fitness \<open>[6, 24]\<close>, total
  30 and the drawn targets 0 and 20. The first individual whose cumulative sum reaches
  the target 0 is \<open>[1, 2, 3]\<close> and the one for the target 20 is \<open>[7, 8, 9]\<close>; the walk
  returns \<open>[7, 8, 9]\<close> in both parent slots.
\<close>

theorem roulette_overwrites_bound_parent:
  "first_reaching (population two_individuals) (population_fitness two_individuals) 0 0
     = Some [1, 2, 3]
   \<and> first_reaching (population two_individuals) (population_fitness two_individuals) 20 0
     = Some [7, 8, 9]
   \<and> randint 0 30 2 [0, 20] = Inr ([0, 20], [])
   \<and> roulette two_individuals 30 [0, 20] = Inr ((Some [7, 8, 9], Some [7, 8, 9]), [])"
proof -
  have d: "randint 0 30 2 [0, 20] = Inr ([0, 20], [])"
    by (simp add: randint_def scale_def numeral_2_eq_2)
  have w: "roulette_walk [[1, 2, 3], [7, 8, 9]] 0 [6, 24] 0 20 0 None None
             = Inr (Some [7, 8, 9::nat], Some [7, 8, 9])"
    by (simp add: py_index_def Let_def)
  from d w show ?thesis
    by (simp add: roulette_def two_individuals_fields)
qed

text \<open>
  Claim C10, as the code has it. When roulette selection is reached (mode 0, the first
  fitness not negative) with a total fitness of zero or less, the draw
  \<^verbatim>\<open>randint(0, total_fitness, 2)\<close> is attempted and raises ValueError, and offspring
  production fails with it. There is no fallback choice of parents.
\<close>

theorem roulette_draw_raises:
  assumes first: "population_fitness e = f0 # fs" "0 \<le> f0"
    and degenerate: "total_fitness \<le> 0"
  shows "select_parents e total_fitness 0 r = roulette e total_fitness r
       \<and> roulette e total_fitness r = Inl ValueError
       \<and> produce_offspring e total_fitness 0 r = Inl ValueError"
proof -
  from degenerate have ro: "roulette e total_fitness r = Inl ValueError"
    by (simp add: roulette_def randint_def)
  from first have "py_index (population_fitness e) 0 = Inr f0"
    by (simp add: py_index_def)
  with first have se: "select_parents e total_fitness 0 r = roulette e total_fitness r"
    by (simp add: select_parents_def)
  with ro have "produce_offspring e total_fitness 0 r = Inl ValueError"
    by (simp add: produce_offspring_def)
  with ro se show ?thesis by simp
qed

theorem roulette_draw_raises_witness:
  "select_parents zero_fitness 0 0 [3, 5] = roulette zero_fitness 0 [3, 5]
   \<and> roulette zero_fitness 0 [3, 5] = Inl ValueError
   \<and> produce_offspring zero_fitness 0 0 [3, 5] = Inl ValueError"
  using roulette_draw_raises [of zero_fitness 0 "[0]" 0 "[3, 5]"]
  by (simp add: zero_fitness_fields)

text \<open>
  Claim C10, as stated, fails at the all-zero fitness vector \<open>[0, 0]\<close>, whose total is 0:
  selection goes to the roulette branch and offspring production ends in ValueError, not
  in a fallback choice.
\<close>

theorem zero_total_fitness_counterexample:
  "population_fitness zero_fitness = [0, 0]
   \<and> np_sum (population_fitness zero_fitness) = 0
   \<and> select_parents zero_fitness 0 0 [3, 5] = roulette zero_fitness 0 [3, 5]
   \<and> produce_offspring zero_fitness (np_sum (population_fitness zero_fitness)) 0 [3, 5]
       = Inl ValueError"
proof -
  have t: "np_sum (population_fitness zero_fitness) = 0"
    by (simp add: np_sum_def zero_fitness_fields)
  have s: "select_parents zero_fitness 0 0 [3, 5] = roulette zero_fitness 0 [3, 5]"
    by (simp add: select_parents_def py_index_def zero_fitness_fields)
  have r: "roulette zero_fitness 0 [3, 5] = Inl ValueError"
    by (simp add: roulette_def randint_def)
  have p: "produce_offspring zero_fitness 0 0 [3, 5] = Inl ValueError"
    by (simp add: produce_offspring_def s r)
  from t s p show ?thesis by (simp add: zero_fitness_fields)
qed

text \<open>
  The total of a reproduction step is the int64 sum: it wraps, so a vector of large
  positive values can have a negative total and a vector with a negative exact sum a
  positive one. With the first fitness not negative and a wrapped total of zero or less,
  the first offspring of the step raises ValueError.
\<close>

lemma np_sum_wraps:
  "np_sum [2 ^ 62, 2 ^ 62] = - (2 ^ 63)" "np_sum [0, - (2 ^ 63), - (2 ^ 63), 5] = 5"
  by (simp_all add: np_sum_def)

lemma np_sum_exact:
  "- (2 ^ 63) \<le> sum_list xs \<Longrightarrow> sum_list xs < 2 ^ 63 \<Longrightarrow> np_sum xs = sum_list xs"
  by (simp add: np_sum_def)

lemma snapshot_fields [simp]:
  "population (snapshot p) = map (contents p) (individuals p)"
  "population_fitness (snapshot p) = population_fitness (attributes p)"
  "pop_size (snapshot p) = pop_size (attributes p)"
  "mutation_rate (snapshot p) = mutation_rate (attributes p)"
  "fitness_function (snapshot p) = fitness_function (attributes p)"
  "termination_condition (snapshot p) = termination_condition (attributes p)"
  "max_iter (snapshot p) = max_iter (attributes p)"
  "individual_viability_check (snapshot p) = individual_viability_check (attributes p)"
  "viable_crossover (snapshot p) = viable_crossover (attributes p)"
  "viable_mutation (snapshot p) = viable_mutation (attributes p)"
  "mutate (snapshot p) = mutate (attributes p)"
  by (simp_all add: snapshot_def)

lemma reproduce_draw_raises:
  assumes "population_fitness (attributes p) = f0 # fs" "0 \<le> f0"
    and "np_sum (population_fitness (attributes p)) \<le> 0"
    and "1 \<le> pop_size (attributes p)"
  shows "reproduce p r = Inl ValueError"
proof -
  from assms(4) obtain n where n: "nat (pop_size (attributes p)) = Suc n"
    by (cases "nat (pop_size (attributes p))") auto
  from assms(1,2) have "py_index (population_fitness (snapshot p)) 0 = Inr f0"
    by (simp add: py_index_def)
  with assms(2,3) have
    "produce_offspring (snapshot p) (np_sum (population_fitness (attributes p))) 0 r
       = Inl ValueError"
    by (simp add: produce_offspring_def select_parents_def roulette_def randint_def)
  then show ?thesis
    by (simp add: reproduce_def n produce_offspring_object_def)
qed

subsection \<open>Crossover\<close>

lemma random_unit: "random r = (u, r') \<Longrightarrow> 0 \<le> u \<and> u < 1"
  by (auto simp: random_def split: prod.splits)

lemma randint1_bounds:
  "low < high \<Longrightarrow> \<exists>x r'. randint1 low high r = Inr (x, r') \<and> low \<le> x \<and> x < high"
  by (auto simp: randint1_def scale_bounds split: prod.splits)

text \<open>
  Claim C8, as the code has it. For parents of one length, at least 3, in non-viable
  mode: the breakpoint \<open>b\<close> is the draw \<^verbatim>\<open>randint(1, len - 1)\<close>, so
  \<open>1 \<le> b < len - 1\<close>; with the draw \<open>u\<close> of \<^verbatim>\<open>random()\<close> the child is
  \<open>parent_1[:b] + parent_2[b:]\<close> when \<open>u < 0.5\<close> and \<open>parent_2[:b] + parent_1[b:]\<close>
  otherwise, and it has the parents' length. (That the draws are uniform is a property
  of the generator, not of this code.)
\<close>

theorem single_point_crossover_child:
  assumes mode: "\<not> individual_viability_check e"
    and same: "length parent_1 = length parent_2"
    and long: "3 \<le> length parent_1"
  shows "\<exists>b r1 u r2 child.
           randint1 1 (int (length parent_1) - 1) r = Inr (int b, r1)
         \<and> 1 \<le> b \<and> b < length parent_1 - 1
         \<and> random r1 = (u, r2)
         \<and> child = (if u < 1 / 2 then take b parent_1 @ drop b parent_2
                     else take b parent_2 @ drop b parent_1)
         \<and> crossover e (Some parent_1, Some parent_2) r = Inr (child, r2)
         \<and> length child = length parent_1"
proof -
  from long have "(1::int) < int (length parent_1) - 1" by simp
  from randint1_bounds [OF this, of r] obtain x r1 where
    x: "randint1 1 (int (length parent_1) - 1) r = Inr (x, r1)"
    and lo: "1 \<le> x" and hi: "x < int (length parent_1) - 1" by blast
  obtain u r2 where u: "random r1 = (u, r2)" by (cases "random r1")
  define b where "b = nat x"
  define child where "child = (if u < 1 / 2 then take b parent_1 @ drop b parent_2
                else take b parent_2 @ drop b parent_1)"
  from lo have xb: "x = int b" by (simp add: b_def)
  from lo hi have b: "1 \<le> b" "b < length parent_1 - 1" by (simp_all add: b_def)
  from b same have len: "length child = length parent_1" by (simp add: child_def)
  from mode x u have c: "crossover e (Some parent_1, Some parent_2) r = Inr (child, r2)"
    by (simp add: crossover_def single_point_crossover_def b_def child_def)
  show ?thesis
    apply (rule exI [of _ b], rule exI [of _ r1], rule exI [of _ u], rule exI [of _ r2],
        rule exI [of _ child])
    using x xb b u len c child_def by simp
qed

lemma half_draw: "random [2 ^ 52] = (1 / 2, [])"
  by (simp add: random_def)

theorem single_point_crossover_child_witness:
  "crossover two_individuals (Some [1, 2, 3], Some [7, 8, 9]) [5, 2 ^ 52] = Inr ([7, 2, 3], [])"
proof -
  have m: "\<not> individual_viability_check two_individuals"
    by (simp add: two_individuals_fields)
  have d: "randint1 1 (int (length [1, 2, 3::nat]) - 1) [5, 2 ^ 52] = Inr (1, [2 ^ 52])"
    by (simp add: randint1_def scale_def)
  from single_point_crossover_child [OF m, of "[1, 2, 3]" "[7, 8, 9]" "[5, 2 ^ 52]"]
  obtain b r1 u r2 child where
    "randint1 1 (int (length [1, 2, 3::nat]) - 1) [5, 2 ^ 52] = Inr (int b, r1)"
    "random r1 = (u, r2)"
    "child = (if u < 1 / 2 then take b [1, 2, 3] @ drop b [7, 8, 9]
                     else take b [7, 8, 9] @ drop b [1, 2, 3])"
    "crossover two_individuals (Some [1, 2, 3], Some [7, 8, 9]) [5, 2 ^ 52] = Inr (child, r2)"
    by auto
  with d half_draw show ?thesis by auto
qed

text \<open>
  Claim C8, as stated, fails for parents of length 2: the range of
  \<^verbatim>\<open>randint(1, 1)\<close> is empty and the draw raises ValueError.
\<close>

theorem crossover_length_two_counterexample:
  "\<not> individual_viability_check two_individuals
   \<and> length [1, 2 :: nat] = length [7, 8 :: nat] \<and> 2 \<le> length [1, 2 :: nat]
   \<and> crossover two_individuals (Some [1, 2], Some [7, 8]) [5, 2 ^ 52] = Inl ValueError"
  by (simp add: crossover_def single_point_crossover_def randint1_def two_individuals_fields)

subsection \<open>Mutation\<close>

lemma random_tape: "snd (random r) = drop 1 r"
  by (cases r) (simp_all add: random_def)

lemma loop_rate_zero:
  "mutation_rate e = 0 \<Longrightarrow> mutation_loop e idxs child r = Inr (child, drop (length idxs) r)"
proof (induction idxs arbitrary: r)
  case Nil
  then show ?case by simp
next
  case (Cons i rest)
  obtain u r1 where u: "random r = (u, r1)" by (cases "random r")
  from random_unit [OF u] have "\<not> u < 0" by simp
  moreover from u random_tape [of r] have "r1 = drop 1 r" by simp
  ultimately show ?case using Cons u by simp
qed

lemma loop_rate_one:
  assumes "mutation_rate e = 1" "\<not> individual_viability_check e"
  shows "mutation_loop e idxs child r
           = Inr (mutate_every (\<lambda>c i. mutate e (c ! i)) idxs child r)"
proof (induction idxs arbitrary: child r)
  case Nil
  then show ?case by simp
next
  case (Cons i rest)
  obtain u r1 where u: "random r = (u, r1)" by (cases "random r")
  from random_unit [OF u] have "u < 1" by simp
  with assms u Cons show ?case by (simp split: prod.splits)
qed

lemma loop_rate_one_viable:
  assumes "mutation_rate e = 1" "individual_viability_check e" "viable_mutation e = Some vm"
  shows "mutation_loop e idxs child r = Inr (mutate_every vm idxs child r)"
proof (induction idxs arbitrary: child r)
  case Nil
  then show ?case by simp
next
  case (Cons i rest)
  obtain u r1 where u: "random r = (u, r1)" by (cases "random r")
  from random_unit [OF u] have "u < 1" by simp
  with assms u Cons show ?case by (simp split: prod.splits)
qed

lemma mutate_every_map:
  assumes pure: "\<forall>g r. f g r = (m g, r)"
  shows "k \<le> length child \<Longrightarrow>
    mutate_every (\<lambda>c i. f (c ! i)) [k..<length child] child r
      = (take k child @ map m (drop k child), drop (length child - k) r)"
proof (induction "length child - k" arbitrary: k child r)
  case 0
  then show ?case by simp
next
  case (Suc n)
  then have k: "k < length child" by simp
  then have up: "[k..<length child] = k # [Suc k..<length child]" by (simp add: upt_conv_Cons)
  let ?c = "child[k := m (child ! k)]"
  have n: "n = length ?c - Suc k" using Suc.hyps(2) by simp
  have le: "Suc k \<le> length ?c" using k by simp
  from Suc.hyps(1) [OF n le, of "drop 1 r"]
  have ih: "mutate_every (\<lambda>c i. f (c ! i)) [Suc k..<length child] ?c (drop 1 r)
      = (take (Suc k) ?c @ map m (drop (Suc k) ?c), drop (length child - Suc k) (drop 1 r))"
    by simp
  have t: "take (Suc k) ?c = take k child @ [m (child ! k)]"
    using k by (simp add: take_Suc_conv_app_nth)
  have d: "drop k child = child ! k # drop (Suc k) child"
    using k by (simp add: Cons_nth_drop_Suc)
  have r: "drop (length child - Suc k) (drop 1 r) = drop (length child - k) r"
    using k by (simp add: Suc_diff_Suc)
  show ?case
    using pure ih t d r by (simp add: up random_tape)
qed



lemma two_individuals_roulette:
  "select_parents two_individuals 30 0 [0, 20] = Inr ((Some [7, 8, 9], Some [7, 8, 9]), [])"
proof -
  have d: "randint 0 30 2 [0, 20] = Inr ([0, 20], [])"
    by (simp add: randint_def scale_def numeral_2_eq_2)
  have w: "roulette_walk [[1, 2, 3], [7, 8, 9]] 0 [6, 24] 0 20 0 None None
             = Inr (Some [7, 8, 9::nat], Some [7, 8, 9])"
    by (simp add: py_index_def Let_def)
  from d w show ?thesis
    by (simp add: select_parents_def roulette_def py_index_def two_individuals_fields)
qed

lemma two_individuals_crossover:
  "crossover two_individuals (Some [7, 8, 9], Some [7, 8, 9]) [] = Inr ([7, 8, 9], [])"
  by (simp add: crossover_def single_point_crossover_def randint1_def scale_def random_def
      two_individuals_fields)

lemma two_individuals_offspring:
  "produce_offspring two_individuals 30 0 [0, 20] = Inr ([7, 8, 9], [])"
  using loop_rate_zero [of two_individuals "[0..<length [7, 8, 9::nat]]" "[7, 8, 9]" "[]"]
  by (simp add: produce_offspring_def two_individuals_roulette two_individuals_crossover
      mutation_def two_individuals_fields)

lemma mutating_fields:
  "mutation_rate always_mutating = 1" "\<not> individual_viability_check always_mutating"
  "mutate always_mutating = (\<lambda>g r. (g + 1, r))"
  "mutation_rate viable_mutating = 1" "individual_viability_check viable_mutating"
  "viable_mutation viable_mutating = Some (\<lambda>child i r. (child ! i + 10, r))"
  by (simp_all add: always_mutating_def viable_mutating_def two_individuals_def evaluate_def
      new_object_def sum_args_def)


subsection \<open>The choice between roulette and tournament\<close>



text \<open>
  The reproduction step asks for mode 0: a non-empty step is the first offspring, produced
  with mode 0 and the int64 total of the fitness vector, before the others.
\<close>

lemma offspring_first:
  "offspring p total_fitness (Suc n) r = Inr (children, p', r') \<Longrightarrow>
   \<exists>child p1 r1 rest. produce_offspring_object p total_fitness 0 r = Inr (child, p1, r1)
     \<and> offspring p1 total_fitness n r1 = Inr (rest, p', r') \<and> children = child # rest"
  by (auto split: sum.splits)

subsection \<open>The shape of the population\<close>

lemma calls_lengths:
  "calls f n r = (xs, r') \<Longrightarrow> \<forall>r. length (fst (f r)) = len \<Longrightarrow> \<forall>x\<in>set xs. length x = len"
proof (induction n arbitrary: r xs r')
  case 0
  then show ?case by simp
next
  case (Suc n)
  obtain x r1 where x: "f r = (x, r1)" by (cases "f r")
  obtain ys r2 where ys: "calls f n r1 = (ys, r2)" by (cases "calls f n r1")
  from Suc.prems(2) x have "length x = len" by (metis fst_conv)
  moreover from Suc.IH [OF ys Suc.prems(2)] have "\<forall>y\<in>set ys. length y = len" .
  moreover from Suc.prems(1) x ys have "xs = x # ys" by simp
  ultimately show ?case by simp
qed

lemma py_index_member: "py_index xs i = Inr x \<Longrightarrow> x \<in> set xs"
  by (auto simp: py_index_def split: if_splits)

lemma roulette_walk_members:
  "roulette_walk pop i fit t1 t2 tot p1 p2 = Inr (q1, q2) \<Longrightarrow>
   set_option p1 \<subseteq> S \<Longrightarrow> set_option p2 \<subseteq> S \<Longrightarrow> set pop \<subseteq> S \<Longrightarrow>
   set_option q1 \<subseteq> S \<and> set_option q2 \<subseteq> S"
proof (induction pop arbitrary: i tot p1 p2)
  case Nil
  then show ?case by simp
next
  case (Cons individual rest)
  from Cons.prems(1) obtain f where f: "py_index fit (int i) = Inr f"
    by (auto split: sum.splits)
  define q1' where "q1' = (if tot + \<bar>f\<bar> \<ge> t1 then Some individual else p1)"
  define q2' where "q2' = (if tot + \<bar>f\<bar> \<ge> t2 then Some individual else p2)"
  have step: "roulette_walk (individual # rest) i fit t1 t2 tot p1 p2
      = (if \<not> (q1' = None \<or> q2' = None) then Inr (q1', q2')
         else roulette_walk rest (Suc i) fit t1 t2 (tot + \<bar>f\<bar>) q1' q2')"
    using f by (simp add: Let_def q1'_def q2'_def)
  from Cons.prems have s1: "set_option q1' \<subseteq> S" and s2: "set_option q2' \<subseteq> S"
    and rest: "set rest \<subseteq> S" by (auto simp: q1'_def q2'_def)
  show ?case
  proof (cases "q1' = None \<or> q2' = None")
    case True
    with Cons.prems(1) step have
      "roulette_walk rest (Suc i) fit t1 t2 (tot + \<bar>f\<bar>) q1' q2' = Inr (q1, q2)"
      by simp
    from Cons.IH [OF this s1 s2 rest] show ?thesis .
  next
    case False
    with Cons.prems(1) step have "q1 = q1'" "q2 = q2'" by simp_all
    with s1 s2 show ?thesis by simp
  qed
qed

lemma select_parents_members:
  assumes "select_parents e total_fitness mode r = Inr ((q1, q2), r1)"
  shows "set_option q1 \<subseteq> set (population e) \<and> set_option q2 \<subseteq> set (population e)"
proof -
  from assms consider
    (roulette) "roulette e total_fitness r = Inr ((q1, q2), r1)"
    | (tournament) "tournament e r = Inr ((q1, q2), r1)"
    by (auto simp: select_parents_def split: if_splits sum.splits)
  then show ?thesis
  proof cases
    case roulette
    then obtain t1 t2 where
      "roulette_walk (population e) 0 (population_fitness e) t1 t2 0 None None = Inr (q1, q2)"
      by (auto simp: roulette_def split: sum.splits list.splits)
    from roulette_walk_members [OF this, of "set (population e)"] show ?thesis by simp
  next
    case tournament
    then obtain m1 m2 x1 x2 where
      "index_opt (population e) m1 = Inr x1" "index_opt (population e) m2 = Inr x2"
      "q1 = Some x1" "q2 = Some x2"
      by (auto simp: tournament_def split: sum.splits)
    then show ?thesis
      by (auto simp: index_opt_def split: option.splits dest: py_index_member)
  qed
qed

lemma randint1_result: "randint1 low high r = Inr (x, r') \<Longrightarrow> low \<le> x \<and> x < high"
  by (auto simp: randint1_def scale_bounds split: if_splits prod.splits)

lemma single_point_crossover_length:
  assumes "single_point_crossover p1 p2 r = Inr (child, r2)"
    and "length p1 = len" "length p2 = len"
  shows "length child = len"
proof -
  from assms(1) obtain x r1 where x: "randint1 1 (int (length p1) - 1) r = Inr (x, r1)"
    by (auto simp: single_point_crossover_def split: sum.splits)
  from randint1_result [OF x] assms(2) have b: "nat x \<le> len" by (simp add: nat_le_iff)
  from assms(1) x have
    "child = take (nat x) p1 @ drop (nat x) p2 \<or> child = take (nat x) p2 @ drop (nat x) p1"
    by (auto simp: single_point_crossover_def split: prod.splits if_splits)
  with b assms(2,3) show ?thesis by auto
qed

lemma crossover_length:
  assumes "crossover e (q1, q2) r = Inr (child, r2)"
    and "\<forall>x\<in>set_option q1. length x = len" "\<forall>x\<in>set_option q2. length x = len"
    and "crossover_keeps_length e len"
  shows "length child = len"
proof (cases "individual_viability_check e")
  case True
  with assms(1) obtain vc p1 p2 c where vc: "viable_crossover e = Some vc"
    and q: "q1 = Some p1" "q2 = Some p2" and c: "vc p1 p2 r = (c, r2)"
    and child: "child = child_value p1 p2 c"
    by (auto simp: crossover_def split: option.splits prod.splits)
  from assms(2,3) q have "length p1 = len" "length p2 = len" by simp_all
  with assms(4) True vc have "length (child_value p1 p2 (fst (vc p1 p2 r))) = len"
    by (simp add: crossover_keeps_length_def)
  with c child show ?thesis by simp
next
  case False
  with assms(1) obtain p1 p2 where q: "q1 = Some p1" "q2 = Some p2"
    and c: "single_point_crossover p1 p2 r = Inr (child, r2)"
    by (auto simp: crossover_def split: option.splits sum.splits)
  from assms(2,3) q have "length p1 = len" "length p2 = len" by simp_all
  from single_point_crossover_length [OF c this] show ?thesis .
qed

lemma mutation_loop_length:
  "mutation_loop e idxs child r = Inr (c, r') \<Longrightarrow> length c = length child"
proof (induction idxs arbitrary: child r)
  case Nil
  then show ?case by simp
next
  case (Cons i rest)
  obtain u r1 where u: "random r = (u, r1)" by (cases "random r")
  from Cons.prems u consider
    (keep) "mutation_loop e rest child r1 = Inr (c, r')"
    | (change) g r2 where "mutation_loop e rest (child[i := g]) r2 = Inr (c, r')"
    by (auto split: if_splits option.splits prod.splits)
  then show ?case
  proof cases
    case keep
    from Cons.IH [OF this] show ?thesis .
  next
    case change
    from Cons.IH [OF this] show ?thesis by simp
  qed
qed

lemma produce_offspring_length:
  assumes "produce_offspring e total_fitness mode r = Inr (c, r')"
    and "\<forall>individual\<in>set (population e). length individual = len"
    and "crossover_keeps_length e len"
  shows "length c = len"
proof -
  from assms(1) obtain q1 q2 r1 child r2 where
    s: "select_parents e total_fitness mode r = Inr ((q1, q2), r1)"
    and x: "crossover e (q1, q2) r1 = Inr (child, r2)"
    and m: "mutation e child r2 = Inr (c, r')"
    by (auto simp: produce_offspring_def split: sum.splits)
  from select_parents_members [OF s] assms(2)
  have "\<forall>x\<in>set_option q1. length x = len" "\<forall>x\<in>set_option q2. length x = len" by auto
  from crossover_length [OF x this assms(3)] have "length child = len" .
  with m mutation_loop_length [of e "[0..<length child]" child r2 c r'] show ?thesis
    by (simp add: mutation_def)
qed

lemma crossover_keeps_length_update [simp]:
  "crossover_keeps_length (e\<lparr>population := pop\<rparr>) len = crossover_keeps_length e len"
  "crossover_keeps_length (e\<lparr>population_fitness := fit\<rparr>) len = crossover_keeps_length e len"
  by (simp_all add: crossover_keeps_length_def)

lemma crossover_keeps_length_snapshot [simp]:
  "crossover_keeps_length (snapshot p) len = crossover_keeps_length (attributes p) len"
  by (simp add: snapshot_def)

lemma produce_offspring_object_shape:
  assumes made: "produce_offspring_object p total_fitness mode r = Inr (c, p', r')"
    and members: "\<forall>a\<in>set (individuals p). length (contents p a) = len"
    and keeps: "crossover_keeps_length (attributes p) len"
  shows "attributes p' = attributes p \<and> individuals p' = individuals p
       \<and> length (contents p' c) = len
       \<and> (\<forall>a. length (contents p a) = len \<longrightarrow> length (contents p' a) = len)"
proof -
  from made obtain child where
    made_value: "produce_offspring (snapshot p) total_fitness mode r = Inr (child, r')"
    by (auto simp: produce_offspring_object_def split: sum.splits option.splits)
  from members have "\<forall>individual\<in>set (population (snapshot p)). length individual = len"
    by simp
  from produce_offspring_length [OF made_value this] keeps have len: "length child = len" by simp
  show ?thesis
  proof (cases "returned_parent (snapshot p) total_fitness mode r")
    case None
    with made made_value have "c = allocated p"
      "p' = p\<lparr>contents := (contents p)(allocated p := child), allocated := Suc (allocated p)\<rparr>"
      by (auto simp: produce_offspring_object_def)
    with len show ?thesis by simp
  next
    case (Some position)
    with made made_value have "c = individuals p ! position"
      "p' = p\<lparr>contents := (contents p)(individuals p ! position := child)\<rparr>"
      by (auto simp: produce_offspring_object_def)
    with len show ?thesis by simp
  qed
qed

lemma offspring_shape:
  "offspring p total_fitness n r = Inr (children, p', r') \<Longrightarrow>
   \<forall>a\<in>set (individuals p). length (contents p a) = len \<Longrightarrow>
   crossover_keeps_length (attributes p) len \<Longrightarrow>
   attributes p' = attributes p \<and> individuals p' = individuals p
     \<and> length children = n
     \<and> (\<forall>c\<in>set children. length (contents p' c) = len)
     \<and> (\<forall>a. length (contents p a) = len \<longrightarrow> length (contents p' a) = len)"
proof (induction n arbitrary: p r children)
  case 0
  then show ?case by simp
next
  case (Suc n)
  from Suc.prems(1) obtain child p1 r1 rest where
    c: "produce_offspring_object p total_fitness 0 r = Inr (child, p1, r1)"
    and o: "offspring p1 total_fitness n r1 = Inr (rest, p', r')"
    and cs: "children = child # rest"
    by (auto split: sum.splits)
  from produce_offspring_object_shape [OF c Suc.prems(2,3)]
  have same: "attributes p1 = attributes p" "individuals p1 = individuals p"
    and child: "length (contents p1 child) = len"
    and kept: "\<forall>a. length (contents p a) = len \<longrightarrow> length (contents p1 a) = len"
    by simp_all
  from Suc.prems(2) same kept
  have members: "\<forall>a\<in>set (individuals p1). length (contents p1 a) = len" by simp
  from Suc.prems(3) same have keeps: "crossover_keeps_length (attributes p1) len" by simp
  from Suc.IH [OF o members keeps]
  have ih: "attributes p' = attributes p1" "individuals p' = individuals p1"
    "length rest = n" "\<forall>c\<in>set rest. length (contents p' c) = len"
    "\<forall>a. length (contents p1 a) = len \<longrightarrow> length (contents p' a) = len"
    by simp_all
  from ih(5) child have "length (contents p' child) = len" by simp
  moreover from ih(5) kept
  have "\<forall>a. length (contents p a) = len \<longrightarrow> length (contents p' a) = len" by simp
  ultimately show ?case using ih(1-4) same cs by simp
qed

lemma reproduce_installs:
  assumes step: "reproduce p r = Inr (p', r')"
    and members: "\<forall>a\<in>set (individuals p). length (contents p a) = len"
    and keeps: "crossover_keeps_length (attributes p) len"
  shows "\<exists>q. offspring p (np_sum (population_fitness (attributes p)))
               (nat (pop_size (attributes p))) r = Inr (individuals p', q, r')
           \<and> contents p' = contents q \<and> allocated p' = allocated q
           \<and> attributes p' = attributes p
           \<and> length (individuals p') = nat (pop_size (attributes p))
           \<and> (\<forall>a\<in>set (individuals p'). length (contents p' a) = len)"
proof -
  from step obtain children q where
    o: "offspring p (np_sum (population_fitness (attributes p)))
          (nat (pop_size (attributes p))) r = Inr (children, q, r')"
    and p': "p' = q\<lparr>individuals := children\<rparr>"
    by (auto simp: reproduce_def split: sum.splits)
  from offspring_shape [OF o members keeps] p' o show ?thesis
    by (intro exI [of _ q]) simp
qed

lemma evaluate_engine_fields [simp]:
  "individuals (evaluate_engine p) = individuals p"
  "contents (evaluate_engine p) = contents p"
  "allocated (evaluate_engine p) = allocated p"
  "pop_size (attributes (evaluate_engine p)) = pop_size (attributes p)"
  "max_iter (attributes (evaluate_engine p)) = max_iter (attributes p)"
  "fitness_function (attributes (evaluate_engine p)) = fitness_function (attributes p)"
  "termination_condition (attributes (evaluate_engine p)) = termination_condition (attributes p)"
  "population (attributes (evaluate_engine p)) = map (contents p) (individuals p)"
  "population_fitness (attributes (evaluate_engine p))
     = map (fitness_function (attributes p)) (map (contents p) (individuals p))"
  "crossover_keeps_length (attributes (evaluate_engine p)) len
     = crossover_keeps_length (attributes p) len"
  by (simp_all add: evaluate_engine_def evaluate_def snapshot_def)

lemma generations_shape:
  "generations j p r = Inr (p', r') \<Longrightarrow>
   length (individuals p) = nat (pop_size (attributes p)) \<Longrightarrow>
   \<forall>a\<in>set (individuals p). length (contents p a) = len \<Longrightarrow>
   crossover_keeps_length (attributes p) len \<Longrightarrow>
   length (individuals p') = nat (pop_size (attributes p))
     \<and> (\<forall>a\<in>set (individuals p'). length (contents p' a) = len)
     \<and> pop_size (attributes p') = pop_size (attributes p)
     \<and> crossover_keeps_length (attributes p') len"
proof (induction j arbitrary: p r)
  case 0
  then show ?case by simp
next
  case (Suc j)
  from Suc.prems(1) obtain p1 r1 where
    step: "reproduce (evaluate_engine p) r = Inr (p1, r1)"
    and run: "generations j p1 r1 = Inr (p', r')"
    by (auto split: sum.splits)
  from Suc.prems(3)
  have members: "\<forall>a\<in>set (individuals (evaluate_engine p)).
      length (contents (evaluate_engine p) a) = len" by simp
  from Suc.prems(4) have keeps: "crossover_keeps_length (attributes (evaluate_engine p)) len"
    by simp
  from reproduce_installs [OF step members keeps]
  have a: "attributes p1 = attributes (evaluate_engine p)"
    and n: "length (individuals p1) = nat (pop_size (attributes p))"
    and l: "\<forall>a\<in>set (individuals p1). length (contents p1 a) = len"
    by auto
  from a have size: "pop_size (attributes p1) = pop_size (attributes p)" by simp
  from a keeps have k: "crossover_keeps_length (attributes p1) len" by simp
  from Suc.IH [OF run _ l k] n size show ?case by simp
qed

lemma init_object:
  assumes "init a r = Inr (e0, r0)"
  shows "\<exists>pop. calls (appropriate_factory a) (nat (pop_size a)) r = (pop, r0)
           \<and> e0 = new_object a pop"
proof (cases "individual_viability_check a")
  case False
  obtain pop r1 where c: "calls (individual_factory a) (nat (pop_size a)) r = (pop, r1)"
    by (cases "calls (individual_factory a) (nat (pop_size a)) r")
  with assms False have "e0 = new_object a pop" "r0 = r1" by (simp_all add: init_def)
  with c False show ?thesis by (simp add: appropriate_factory_def)
next
  case True
  have "viable_individual_factory a \<noteq> None"
  proof
    assume "viable_individual_factory a = None"
    with True have "\<exists>err. init a r = Inl err" by (simp add: init_def)
    with assms show False by auto
  qed
  then obtain f where f: "viable_individual_factory a = Some f" by auto
  obtain pop r1 where c: "calls f (nat (pop_size a)) r = (pop, r1)"
    by (cases "calls f (nat (pop_size a)) r")
  have "init a r = Inr (new_object a pop, r1) \<or> (\<exists>err. init a r = Inl err)"
    using True f c by (simp add: init_def)
  with assms have "e0 = new_object a pop" "r0 = r1" by auto
  with c True f show ?thesis by (simp add: appropriate_factory_def)
qed

text \<open>
  Selection by position agrees with selection by value: the parents are the members of
  the population at the selected positions.
\<close>

lemma roulette_walk_step:
  assumes "py_index fit (int i) = Inr v"
    and "q1 = (if tot + \<bar>v\<bar> \<ge> t1 then Some x else p1)"
    and "q2 = (if tot + \<bar>v\<bar> \<ge> t2 then Some x else p2)"
  shows "roulette_walk (x # xs) i fit t1 t2 tot p1 p2
      = (if \<not> (q1 = None \<or> q2 = None) then Inr (q1, q2)
         else roulette_walk xs (Suc i) fit t1 t2 (tot + \<bar>v\<bar>) q1 q2)"
  using assms(1) by (simp add: Let_def assms(2,3))

lemma roulette_walk_map:
  "roulette_walk (map f xs) i fit t1 t2 tot (map_option f p1) (map_option f p2)
     = (case roulette_walk xs i fit t1 t2 tot p1 p2 of
          Inl err \<Rightarrow> Inl err
        | Inr (a, b) \<Rightarrow> Inr (map_option f a, map_option f b))"
proof (induction xs arbitrary: i tot p1 p2)
  case Nil
  show ?case by simp
next
  case (Cons x xs)
  show ?case
  proof (cases "py_index fit (int i)")
    case (Inl err)
    then show ?thesis by simp
  next
    case (Inr v)
    define q1 where "q1 = (if tot + \<bar>v\<bar> \<ge> t1 then Some x else p1)"
    define q2 where "q2 = (if tot + \<bar>v\<bar> \<ge> t2 then Some x else p2)"
    have left: "roulette_walk (f x # map f xs) i fit t1 t2 tot (map_option f p1)
          (map_option f p2)
        = (if \<not> (map_option f q1 = None \<or> map_option f q2 = None)
           then Inr (map_option f q1, map_option f q2)
           else roulette_walk (map f xs) (Suc i) fit t1 t2 (tot + \<bar>v\<bar>)
                  (map_option f q1) (map_option f q2))"
      by (rule roulette_walk_step [OF Inr]) (simp_all add: q1_def q2_def)
    have right: "roulette_walk (x # xs) i fit t1 t2 tot p1 p2
        = (if \<not> (q1 = None \<or> q2 = None) then Inr (q1, q2)
           else roulette_walk xs (Suc i) fit t1 t2 (tot + \<bar>v\<bar>) q1 q2)"
      by (rule roulette_walk_step [OF Inr]) (simp_all add: q1_def q2_def)
    show ?thesis
      unfolding list.map left right using Cons.IH [of "Suc i" "tot + \<bar>v\<bar>" q1 q2] by simp
  qed
qed

lemma index_opt_positions:
  "index_opt xs m = (case index_opt [0..<length xs] m of
                       Inl err \<Rightarrow> Inl err | Inr k \<Rightarrow> Inr (xs ! k))"
  by (cases m) (auto simp: index_opt_def py_index_def)

text \<open>The parents that \<open>select_parents\<close> returns are the members at the selected positions.\<close>

lemma select_parents_positions:
  "select_parents e total_fitness mode r
     = (case select_positions e total_fitness mode r of
          Inl err \<Rightarrow> Inl err
        | Inr ((a, b), r') \<Rightarrow>
            Inr ((map_option (nth (population e)) a, map_option (nth (population e)) b), r'))"
proof -
  have walk: "roulette_walk (population e) 0 fit t1 t2 0 None None
      = (case roulette_walk [0..<length (population e)] 0 fit t1 t2 0 None None of
           Inl err \<Rightarrow> Inl err
         | Inr (a, b) \<Rightarrow>
             Inr (map_option (nth (population e)) a, map_option (nth (population e)) b))"
    for fit t1 t2
    using roulette_walk_map [of "nth (population e)" "[0..<length (population e)]" 0 fit
        t1 t2 0 None None]
    by (simp add: map_nth)
  have roulette:
    "roulette e total_fitness r
       = (case roulette_positions e total_fitness r of
            Inl err \<Rightarrow> Inl err
          | Inr ((a, b), r') \<Rightarrow>
              Inr ((map_option (nth (population e)) a, map_option (nth (population e)) b), r'))"
    unfolding roulette_def roulette_positions_def
    by (auto simp: walk split: sum.splits list.splits)
  have tournament:
    "tournament e r
       = (case tournament_positions e r of
            Inl err \<Rightarrow> Inl err
          | Inr ((a, b), r') \<Rightarrow>
              Inr ((map_option (nth (population e)) a, map_option (nth (population e)) b), r'))"
    unfolding tournament_def tournament_positions_def
    by (auto simp: index_opt_positions [of "population e"] split: sum.splits)
  show ?thesis
    unfolding select_parents_def select_positions_def
    by (simp add: roulette tournament split: sum.splits)
qed


subsection \<open>The simulation loop\<close>

lemma fold_max_Max: "fold max rest (x :: int) = Max (set (x # rest))"
  by (simp only: Max.set_eq_fold)

lemma fold_min_Min: "fold min rest (x :: int) = Min (set (x # rest))"
  by (simp only: Min.set_eq_fold)

lemma np_max_Max: "xs \<noteq> [] \<Longrightarrow> np_max xs = Inr (Max (set xs))"
  by (cases xs) (simp_all add: np_max_def fold_max_Max del: set_simps)

lemma np_min_Min: "xs \<noteq> [] \<Longrightarrow> np_min xs = Inr (Min (set xs))"
  by (cases xs) (simp_all add: np_min_def fold_min_Min del: set_simps)

lemma takeWhile_stops: "\<exists>x\<in>set xs. \<not> P x \<Longrightarrow> length (takeWhile P xs) < length xs"
  by (induction xs) auto

lemma np_argmax_first:
  assumes "xs \<noteq> []"
  shows "\<exists>i. np_argmax xs = Inr i \<and> i < length xs \<and> xs ! i = Max (set xs)"
proof -
  from assms obtain x rest where xs: "xs = x # rest" by (cases xs) auto
  let ?m = "Max (set xs)"
  let ?i = "length (takeWhile (\<lambda>y. y \<noteq> ?m) xs)"
  have "?m \<in> set xs" using assms by (intro Max_in) simp_all
  then have lt: "?i < length xs" by (intro takeWhile_stops) auto
  from nth_length_takeWhile [OF lt] have "xs ! ?i = ?m" by simp
  moreover have "np_argmax xs = Inr ?i"
    unfolding np_argmax_def xs list.case fold_max_Max ..
  ultimately show ?thesis using lt by blast
qed

lemma fitness_vector [simp]:
  "population_fitness (attributes (evaluate_engine p))
     = map (\<lambda>a. fitness_function (attributes p) (contents p a)) (individuals p)"
  by (simp add: evaluate_engine_def evaluate_def snapshot_def comp_def)

lemma record_generation_evaluated:
  assumes "individuals p \<noteq> []"
  shows "\<exists>res1 best. record_generation np_average (evaluate_engine p) res = Inr res1
     \<and> best_individual_data res1
         = best_individual_data res
             @ [Max (set (population_fitness (attributes (evaluate_engine p))))]
     \<and> worst_individual_data res1
         = worst_individual_data res
             @ [Min (set (population_fitness (attributes (evaluate_engine p))))]
     \<and> generation_average_data res1
         = generation_average_data res
             @ [np_average (population_fitness (attributes (evaluate_engine p)))]
     \<and> historic_best_individual res1 = historic_best_individual res @ [best]
     \<and> best \<in> set (individuals p)
     \<and> fitness_function (attributes p) (contents p best)
         = Max (set (population_fitness (attributes (evaluate_engine p))))"
proof -
  let ?fit = "population_fitness (attributes (evaluate_engine p))"
  from assms have ne: "?fit \<noteq> []" by simp
  from np_argmax_first [OF ne] obtain i where
    i: "np_argmax ?fit = Inr i" "i < length ?fit" "?fit ! i = Max (set ?fit)" by blast
  from i(2) have il: "i < length (individuals p)" by simp
  then have idx: "py_index (individuals (evaluate_engine p)) (int i) = Inr (individuals p ! i)"
    by (simp add: py_index_def)
  from il i(3)
  have best: "fitness_function (attributes p) (contents p (individuals p ! i)) = Max (set ?fit)"
    by simp
  from il have mem: "individuals p ! i \<in> set (individuals p)" by simp
  let ?res1 = "res\<lparr>
      best_individual_data := best_individual_data res @ [Max (set ?fit)],
      worst_individual_data := worst_individual_data res @ [Min (set ?fit)],
      generation_average_data := generation_average_data res @ [np_average ?fit],
      historic_best_individual := historic_best_individual res @ [individuals p ! i]\<rparr>"
  have "record_generation np_average (evaluate_engine p) res = Inr ?res1"
    unfolding record_generation_def np_max_Max [OF ne] np_min_Min [OF ne] i(1) idx sum.case ..
  with best mem show ?thesis
    by (intro exI [of _ ?res1] exI [of _ "individuals p ! i"]) simp
qed

lemma termination_met_nonempty:
  "termination_met (attributes (evaluate_engine p)) \<Longrightarrow> individuals p \<noteq> []"
  by (auto simp: termination_met_def)

lemma reproduce_empty:
  assumes "reproduce p r = Inr (p1, r1)" and "population_fitness (attributes p) = []"
  shows "individuals p1 = []"
proof (cases "nat (pop_size (attributes p))")
  case 0
  with assms(1) show ?thesis by (auto simp: reproduce_def)
next
  case (Suc m)
  from assms(2) have "produce_offspring (snapshot p)
      (np_sum (population_fitness (attributes p))) 0 r = Inl IndexError"
    by (simp add: produce_offspring_def select_parents_def py_index_def)
  with Suc assms(1) show ?thesis by (simp add: reproduce_def produce_offspring_object_def)
qed

lemma generations_empty:
  "generations j p r = Inr (p', r') \<Longrightarrow> individuals p = [] \<Longrightarrow> individuals p' = []"
proof (induction j arbitrary: p r)
  case 0
  then show ?case by simp
next
  case (Suc j)
  from Suc.prems(1) obtain p1 r1 where
    step: "reproduce (evaluate_engine p) r = Inr (p1, r1)"
    and run: "generations j p1 r1 = Inr (p', r')"
    by (auto split: sum.splits)
  from Suc.prems(2) have "population_fitness (attributes (evaluate_engine p)) = []" by simp
  from reproduce_empty [OF step this] have "individuals p1 = []" .
  from Suc.IH [OF run this] show ?case .
qed

lemma simulate_loop_halts:
  "generations k p r = Inr (pk, rk) \<Longrightarrow>
   \<forall>j<k. \<forall>pj rj. generations j p r = Inr (pj, rj)
     \<longrightarrow> \<not> termination_met (attributes (evaluate_engine pj)) \<Longrightarrow>
   termination_met (attributes (evaluate_engine pk)) \<Longrightarrow> k < n \<Longrightarrow>
   \<exists>res'. simulate_loop np_average n p res r = Inr (res', evaluate_engine pk, rk)
     \<and> length (best_individual_data res') = length (best_individual_data res) + Suc k
     \<and> length (worst_individual_data res') = length (worst_individual_data res) + Suc k
     \<and> length (generation_average_data res') = length (generation_average_data res) + Suc k
     \<and> length (historic_best_individual res') = length (historic_best_individual res) + Suc k
     \<and> last (best_individual_data res')
          = Max (set (population_fitness (attributes (evaluate_engine pk))))
     \<and> last (worst_individual_data res')
          = Min (set (population_fitness (attributes (evaluate_engine pk))))
     \<and> last (generation_average_data res')
          = np_average (population_fitness (attributes (evaluate_engine pk)))
     \<and> last (historic_best_individual res') \<in> set (individuals pk)
     \<and> fitness_function (attributes pk) (contents pk (last (historic_best_individual res')))
          = Max (set (population_fitness (attributes (evaluate_engine pk))))"
proof (induction k arbitrary: p r n res)
  case 0
  from "0.prems"(1) have same: "pk = p" "rk = r" by simp_all
  from "0.prems"(4) obtain n' where n: "n = Suc n'" by (cases n) auto
  from "0.prems"(3) same have met: "termination_met (attributes (evaluate_engine p))" by simp
  from record_generation_evaluated [OF termination_met_nonempty [OF met], of np_average res]
  obtain res1 best where rec: "record_generation np_average (evaluate_engine p) res = Inr res1"
    and data: "best_individual_data res1
         = best_individual_data res
             @ [Max (set (population_fitness (attributes (evaluate_engine p))))]"
      "worst_individual_data res1
         = worst_individual_data res
             @ [Min (set (population_fitness (attributes (evaluate_engine p))))]"
      "generation_average_data res1
         = generation_average_data res
             @ [np_average (population_fitness (attributes (evaluate_engine p)))]"
      "historic_best_individual res1 = historic_best_individual res @ [best]"
      "best \<in> set (individuals p)"
      "fitness_function (attributes p) (contents p best)
         = Max (set (population_fitness (attributes (evaluate_engine p))))"
    by blast
  from rec met have "simulate_loop np_average n p res r = Inr (res1, evaluate_engine p, r)"
    by (simp add: n)
  with data same show ?case
    by (intro exI [of _ res1]) (simp del: fitness_vector)
next
  case (Suc k)
  from Suc.prems(1) obtain p1 r1 where
    step: "reproduce (evaluate_engine p) r = Inr (p1, r1)"
    and run: "generations k p1 r1 = Inr (pk, rk)"
    by (auto split: sum.splits)
  from Suc.prems(4) obtain n' where n: "n = Suc n'" and k: "k < n'" by (cases n) auto
  have "generations 0 p r = Inr (p, r)" by simp
  with Suc.prems(2) have not_met: "\<not> termination_met (attributes (evaluate_engine p))"
    by blast
  have later: "\<forall>j<k. \<forall>pj rj. generations j p1 r1 = Inr (pj, rj)
      \<longrightarrow> \<not> termination_met (attributes (evaluate_engine pj))"
  proof (intro allI impI)
    fix j pj rj
    assume "j < k" and "generations j p1 r1 = Inr (pj, rj)"
    with step have "Suc j < Suc k" "generations (Suc j) p r = Inr (pj, rj)" by simp_all
    with Suc.prems(2) show "\<not> termination_met (attributes (evaluate_engine pj))" by blast
  qed
  have nonempty: "individuals p \<noteq> []"
  proof
    assume "individuals p = []"
    from generations_empty [OF Suc.prems(1) this]
      termination_met_nonempty [OF Suc.prems(3)] show False by simp
  qed
  from record_generation_evaluated [OF nonempty, of np_average res]
  obtain res1 where rec: "record_generation np_average (evaluate_engine p) res = Inr res1"
    and lens: "length (best_individual_data res1) = Suc (length (best_individual_data res))"
      "length (worst_individual_data res1) = Suc (length (worst_individual_data res))"
      "length (generation_average_data res1) = Suc (length (generation_average_data res))"
      "length (historic_best_individual res1) = Suc (length (historic_best_individual res))"
    by force
  from rec not_met step have unfold:
    "simulate_loop np_average n p res r = simulate_loop np_average n' p1 res1 r1"
    by (simp add: n)
  from Suc.IH [OF run later Suc.prems(3) k, of res1] lens unfold show ?case
    by (simp del: fitness_vector)
qed


subsection \<open>A run whose offspring are members of the population\<close>

lemma aliasing_args_fields:
  "pop_size aliasing_args = 2" "individual_viability_check aliasing_args"
  "viable_individual_factory aliasing_args
     = Some (\<lambda>r. case next_raw r of (x, r') \<Rightarrow> ([x, x + 1, x + 2], r'))"
  "individual_viability_condition aliasing_args \<noteq> None"
  "viable_mutation aliasing_args \<noteq> None" "viable_crossover aliasing_args \<noteq> None"
  "viable_crossover aliasing_args = Some (\<lambda>parent_1 parent_2 r. (Parent_1, r))"
  "fitness_function aliasing_args = (\<lambda>individual. min 1000 (int (sum_list individual)))"
  by (simp_all add: aliasing_args_def sum_args_def)

lemma aliasing_attributes:
  "pop_size (new_object aliasing_args pop) = 2"
  "max_iter (new_object aliasing_args pop) = 50"
  "mutation_rate (new_object aliasing_args pop) = 1"
  "individual_viability_check (new_object aliasing_args pop)"
  "viable_mutation (new_object aliasing_args pop) = Some (\<lambda>child i r. (child ! i + 10, r))"
  "viable_crossover (new_object aliasing_args pop)
     = Some (\<lambda>parent_1 parent_2 r. (Parent_1, r))"
  "fitness_function (new_object aliasing_args pop)
     = (\<lambda>individual. min 1000 (int (sum_list individual)))"
  "termination_condition (new_object aliasing_args pop) = (\<lambda>f. f \<ge> 25)"
  by (simp_all add: new_object_def aliasing_args_def sum_args_def)

lemma aliasing_offspring:
  assumes a: "attributes q = evaluate (snapshot aliasing_start)"
    and i: "individuals q = [0, Suc 0]"
    and c0: "contents q 0 = [1, 2, 3]" and c1: "contents q (Suc 0) = [x, y, z]"
  shows "produce_offspring_object q 30 0 (20 # 20 # rest)
     = Inr (Suc 0, q\<lparr>contents := (contents q)(Suc 0 := [x + 10, y + 10, z + 10])\<rparr>,
            drop 1 (drop 1 (drop 1 rest)))"
proof -
  have fit: "population_fitness (attributes q) = [6, 24]"
    by (simp add: a evaluate_def snapshot_def aliasing_start_def aliasing_attributes)
  have pop: "population (snapshot q) = [[1, 2, 3], [x, y, z]]"
    by (simp add: i c0 c1)
  have d: "randint 0 30 2 (20 # 20 # rest) = Inr ([20, 20], rest)"
    by (simp add: randint_def scale_def numeral_2_eq_2)
  have w: "roulette_walk [u, v] 0 [6, 24] 20 20 0 None None = Inr (Some v, Some v)" for u v :: 'x
    by (simp add: py_index_def Let_def)
  have mode: "individual_viability_check (snapshot q)" "mutation_rate (snapshot q) = 1"
    "viable_mutation (snapshot q) = Some (\<lambda>child i r. (child ! i + 10, r))"
    "viable_crossover (snapshot q) = Some (\<lambda>parent_1 parent_2 r. (Parent_1, r))"
    by (simp_all add: a evaluate_def snapshot_def aliasing_start_def aliasing_attributes)
  have s: "select_parents (snapshot q) 30 0 (20 # 20 # rest)
      = Inr ((Some [x, y, z], Some [x, y, z]), rest)"
    by (simp add: select_parents_def roulette_def py_index_def Let_def fit i c0 c1 d w)
  have sp: "select_positions (snapshot q) 30 0 (20 # 20 # rest)
      = Inr ((Some (Suc 0), Some (Suc 0)), rest)"
    by (simp add: select_positions_def roulette_positions_def py_index_def Let_def fit i c0 c1 d w)
  have x: "crossover (snapshot q) (Some [x, y, z], Some [x, y, z]) rest = Inr ([x, y, z], rest)"
    by (simp add: crossover_def mode child_value_def del: snapshot_fields)
  have m: "mutation (snapshot q) [x, y, z] rest
      = Inr ([x + 10, y + 10, z + 10], drop 1 (drop 1 (drop 1 rest)))"
    unfolding mutation_def loop_rate_one_viable [OF mode(2) mode(1) mode(3)]
    by (simp add: random_tape)
  have made: "produce_offspring (snapshot q) 30 0 (20 # 20 # rest)
      = Inr ([x + 10, y + 10, z + 10], drop 1 (drop 1 (drop 1 rest)))"
    by (simp only: produce_offspring_def s x m sum.case prod.case)
  have kept: "returned_parent (snapshot q) 30 0 (20 # 20 # rest) = Some (Suc 0)"
    by (simp add: returned_parent_def sp mode del: snapshot_fields)
  show ?thesis
    by (simp only: produce_offspring_object_def made kept sum.case prod.case option.case i
        nth_Cons_Suc nth_Cons_0)
qed


lemma aliasing_start_fields:
  "attributes aliasing_start = new_object aliasing_args [[1, 2, 3], [7, 8, 9]]"
  "individuals aliasing_start = [0, Suc 0]"
  "contents aliasing_start 0 = [1, 2, 3]"
  "contents aliasing_start (Suc 0) = [7, 8, 9]"
  "allocated aliasing_start = 2"
  by (simp_all add: aliasing_start_def)

lemma aliasing_first_fitness:
  "population_fitness (attributes (evaluate_engine aliasing_start)) = [6, 24]"
  by (simp add: aliasing_start_fields aliasing_attributes)

lemma aliasing_reproduce:
  "reproduce (evaluate_engine aliasing_start) [20, 20, 0, 0, 0, 20, 20] = Inr (aliasing_next, [])"
proof -
  define p where "p = evaluate_engine aliasing_start"
  define p1 where "p1 = p\<lparr>contents := (contents p)(Suc 0 := [17, 18, 19])\<rparr>"
  define p2 where "p2 = p1\<lparr>contents := (contents p1)(Suc 0 := [27, 28, 29])\<rparr>"
  have at: "attributes p = evaluate (snapshot aliasing_start)"
    by (simp add: p_def evaluate_engine_def)
  have at1: "attributes p1 = evaluate (snapshot aliasing_start)"
    by (simp add: p1_def at)
  have total: "np_sum (population_fitness (attributes p)) = 30"
    unfolding p_def aliasing_first_fitness by (simp add: np_sum_def)
  have n: "nat (pop_size (attributes p)) = Suc (Suc 0)"
    by (simp add: p_def aliasing_start_fields aliasing_attributes)
  have "produce_offspring_object p 30 0 (20 # 20 # [0, 0, 0, 20, 20])
      = Inr (Suc 0, p\<lparr>contents := (contents p)(Suc 0 := [7 + 10, 8 + 10, 9 + 10])\<rparr>,
             drop 1 (drop 1 (drop 1 [0, 0, 0, 20, 20])))"
    by (rule aliasing_offspring [OF at]) (simp_all add: p_def aliasing_start_fields)
  then have o1: "produce_offspring_object p 30 0 [20, 20, 0, 0, 0, 20, 20]
      = Inr (Suc 0, p1, [20, 20])"
    by (simp add: p1_def)
  have "produce_offspring_object p1 30 0 (20 # 20 # [])
      = Inr (Suc 0, p1\<lparr>contents := (contents p1)(Suc 0 := [17 + 10, 18 + 10, 19 + 10])\<rparr>,
             drop 1 (drop 1 (drop 1 [])))"
    by (rule aliasing_offspring [OF at1]) (simp_all add: p1_def p_def aliasing_start_fields)
  then have o2: "produce_offspring_object p1 30 0 [20, 20] = Inr (Suc 0, p2, [])"
    by (simp add: p2_def)
  have o: "offspring p 30 (Suc (Suc 0)) [20, 20, 0, 0, 0, 20, 20] = Inr ([Suc 0, Suc 0], p2, [])"
    by (simp only: offspring.simps o1 o2 sum.case prod.case)
  have "p2\<lparr>individuals := [Suc 0, Suc 0]\<rparr> = aliasing_next"
    by (simp add: p2_def p1_def p_def aliasing_next_def)
  with o show ?thesis
    unfolding p_def [symmetric] by (simp only: reproduce_def total n sum.case prod.case)
qed

lemma aliasing_generations:
  "generations (Suc 0) aliasing_start [20, 20, 0, 0, 0, 20, 20] = Inr (aliasing_next, [])"
  by (simp only: generations.simps aliasing_reproduce sum.case prod.case)

lemma aliasing_next_fields:
  "individuals aliasing_next = [Suc 0, Suc 0]"
  "contents aliasing_next (Suc 0) = [27, 28, 29]"
  "attributes aliasing_next = evaluate (snapshot aliasing_start)"
  by (simp_all add: aliasing_next_def evaluate_engine_def)

lemma aliasing_second_fitness:
  "population_fitness (attributes (evaluate_engine aliasing_next)) = [84, 84]"
  by (simp add: aliasing_next_fields evaluate_def aliasing_start_fields aliasing_attributes)

lemma aliasing_init:
  "init aliasing_args [1, 7, 20, 20, 0, 0, 0, 20, 20]
     = Inr (new_object aliasing_args [[1, 2, 3], [7, 8, 9]], [20, 20, 0, 0, 0, 20, 20])"
  by (simp add: init_def aliasing_args_fields numeral_2_eq_2 numeral_3_eq_3)

lemma aliasing_range: "fitness_in_int64 aliasing_args"
  by (simp add: fitness_in_int64_def aliasing_args_fields min_def)

lemma aliasing_contracts:
  "factory_gives_length aliasing_args 3" "crossover_keeps_length aliasing_args 3"
  by (auto simp: factory_gives_length_def crossover_keeps_length_def appropriate_factory_def
      aliasing_args_fields child_value_def split: prod.splits)

lemma aliasing_constructed:
  "constructed (new_object aliasing_args [[1, 2, 3], [7, 8, 9]]) aliasing_start"
  by (simp add: constructed_def addresses_allocated_def aliasing_start_def)



lemma aliasing_not_met:
  "\<forall>j<Suc 0. \<forall>pj rj. generations j aliasing_start [20, 20, 0, 0, 0, 20, 20] = Inr (pj, rj)
     \<longrightarrow> \<not> termination_met (attributes (evaluate_engine pj))"
  by (simp add: termination_met_def aliasing_first_fitness aliasing_start_fields
      aliasing_attributes)

lemma aliasing_met: "termination_met (attributes (evaluate_engine aliasing_next))"
  by (simp add: termination_met_def aliasing_second_fitness aliasing_next_fields
      aliasing_start_fields aliasing_attributes evaluate_def)

lemma aliasing_bound: "int (Suc (Suc 0)) \<le> max_iter (attributes aliasing_start)"
  by (simp add: aliasing_start_fields aliasing_attributes)

lemma aliasing_start_range: "fitness_in_int64 (attributes aliasing_start)"
  by (simp add: fitness_in_int64_def aliasing_start_fields aliasing_attributes min_def)

lemma aliasing_allocated: "addresses_allocated aliasing_start"
  by (simp add: addresses_allocated_def aliasing_start_def)


end
